theory Spec2Isabelle
  imports Main "HOL-Library.AList" "HOL-Library.Word"
begin

section \<open>User-config converters of the Aiven Terraform provider\<close>

text \<open>
  A shallow embedding of \<^verbatim>\<open>internal/sdkprovider/userconfig/converters/converters.go\<close>.
  The Go functions keep their names. Go values of type \<^verbatim>\<open>any\<close> are one datatype,
  Go maps are association lists read with \<^const>\<open>map_of\<close> and written with
  \<^const>\<open>AList.update\<close> and \<^const>\<open>AList.delete\<close>, and every failed type assertion
  of the source is the outcome \<open>Panic\<close>, kept apart from a returned \<^verbatim>\<open>error\<close>.
\<close>

subsection \<open>Schemas of the Terraform SDK\<close>

datatype ValueType =
  TypeInvalid | TypeBool | TypeInt | TypeFloat | TypeString | TypeList | TypeMap | TypeSet

text \<open>
  \<^verbatim>\<open>schema.Schema\<close> with the fields the converters read. \<^verbatim>\<open>Elem\<close> is an
  interface that holds nothing, a \<^verbatim>\<open>*schema.Schema\<close> or a \<^verbatim>\<open>*schema.Resource\<close>;
  the resource's \<^verbatim>\<open>map[string]*schema.Schema\<close> is listed in the order the
  \<^verbatim>\<open>range\<close> loop happens to visit it.
\<close>

datatype schema = Schema (Type: ValueType) (ForceNew: bool) (MaxItems: int) (Elem: elem)
and elem = ElemNil | ElemSchema schema | ElemResource "(string \<times> schema) list"

subsection \<open>Go values\<close>

text \<open>
  A value of type \<^verbatim>\<open>any\<close>: the nil interface, the scalars of the two sides
  (\<^verbatim>\<open>json.Number\<close> is a string type; a \<^verbatim>\<open>float64\<close> is its 64 bits, and is
  only ever produced and printed by the functions passed in for that),
  \<^verbatim>\<open>map[string]any\<close>, \<^verbatim>\<open>[]any\<close> and \<^verbatim>\<open>*schema.Set\<close>.
  A nil slice and an empty slice are both \<open>VList []\<close>: the code only takes their
  length and ranges over them. An interface holding an empty map or slice is not
  the nil interface, as in Go.
\<close>

datatype val =
    VNil
  | VBool bool
  | VString string
  | VNumber string
  | VInt int
  | VFloat "64 word"
  | VMap "(string \<times> val) list"
  | VList "val list"
  | VSet "val list"

type_synonym dto = "(string \<times> val) list"

text \<open>\<^verbatim>\<open>m[k]\<close> on a Go map: the zero value, nil, when the key is missing.\<close>

definition index :: "dto \<Rightarrow> string \<Rightarrow> val" where
  "index m k = (case map_of m k of Some v \<Rightarrow> v | None \<Rightarrow> VNil)"

subsection \<open>Errors and panics\<close>

text \<open>
  \<^verbatim>\<open>fmt.Errorf("%q field conversion error: %w", k, err)\<close> is
  \<open>FieldConversionError k err\<close>; \<open>InvalidType\<close> is the error of \<^verbatim>\<open>castType\<close>,
  \<open>InvalidNumber\<close> the one of \<^verbatim>\<open>strconv\<close>.
\<close>

datatype error = InvalidType | InvalidNumber | FieldConversionError string error

datatype failure = Panic | Error error

text \<open>The field names an error carries, outermost first.\<close>

fun errorFields :: "error \<Rightarrow> string list" where
  "errorFields (FieldConversionError k e) = k # errorFields e"
| "errorFields _ = []"

definition wrapField :: "string \<Rightarrow> failure \<Rightarrow> failure" where
  "wrapField k f = (case f of Panic \<Rightarrow> Panic | Error e \<Rightarrow> Error (FieldConversionError k e))"

subsection \<open>Numbers as text\<close>

text \<open>\<^verbatim>\<open>%d\<close> of a list index.\<close>

fun showNat :: "nat \<Rightarrow> string" where
  "showNat n =
     (if n < 10 then [''0123456789'' ! n]
      else showNat (n div 10) @ [''0123456789'' ! (n mod 10)])"

declare showNat.simps [simp del]

definition showInt :: "int \<Rightarrow> string" where
  "showInt i = (if i < 0 then CHR ''-'' # showNat (nat (- i)) else showNat (nat i))"

text \<open>The value of a decimal digit: its place in \<open>0123456789\<close>.\<close>

fun placeIn :: "char \<Rightarrow> string \<Rightarrow> nat option" where
  "placeIn c [] = None"
| "placeIn c (x # xs) = (if c = x then Some 0 else map_option Suc (placeIn c xs))"

definition digitVal :: "char \<Rightarrow> nat option" where
  "digitVal c = placeIn c ''0123456789''"

fun parseDigits :: "string \<Rightarrow> nat \<Rightarrow> nat option" where
  "parseDigits [] acc = Some acc"
| "parseDigits (c # cs) acc =
     (case digitVal c of None \<Rightarrow> None | Some d \<Rightarrow> parseDigits cs (10 * acc + d))"

text \<open>
  \<^verbatim>\<open>json.Number.Int64\<close>, that is \<^verbatim>\<open>strconv.ParseInt(s, 10, 64)\<close>: an optional
  sign, at least one decimal digit, and a value that fits 64 bits; \<open>None\<close> is
  the returned error.
\<close>

definition Int64 :: "string \<Rightarrow> int option" where
  "Int64 s =
     (case s of
        [] \<Rightarrow> None
      | c # cs \<Rightarrow>
          let neg = (c = CHR ''-'');
              ds = (if c = CHR ''-'' \<or> c = CHR ''+'' then cs else s)
          in if ds = [] then None
             else (case parseDigits ds 0 of
                     None \<Rightarrow> None
                   | Some n \<Rightarrow>
                       let i = (if neg then - int n else int n)
                       in if - (2 ^ 63) \<le> i \<and> i < 2 ^ 63 then Some i else None))"

subsection \<open>Raw configuration values and the resource data\<close>

text \<open>
  A \<^verbatim>\<open>cty.Value\<close> of the raw configuration, as far as the converters look at
  it: null (the Go zero value \<^verbatim>\<open>cty.Value{}\<close> is null too), a string, a
  number (carried as the text \<^verbatim>\<open>AsBigFloat().String()\<close> prints, which is all
  the code reads of it), a bool, a list or set, an object. Unknown and marked
  values are left out. The methods panic where those of the library do.
\<close>

datatype cty =
    CNull
  | CString string
  | CNumber string
  | CBool bool
  | CList "cty list"
  | CObject "(string \<times> cty) list"

definition IsNull :: "cty \<Rightarrow> bool" where
  "IsNull c = (c = CNull)"

fun CanIterateElements :: "cty \<Rightarrow> bool" where
  "CanIterateElements (CList xs) = True"
| "CanIterateElements (CObject kvs) = True"
| "CanIterateElements _ = False"

fun LengthInt :: "cty \<Rightarrow> failure + nat" where
  "LengthInt (CList xs) = Inr (length xs)"
| "LengthInt (CObject kvs) = Inr (length kvs)"
| "LengthInt _ = Inl Panic"

fun AsValueSlice :: "cty \<Rightarrow> failure + cty list" where
  "AsValueSlice (CList xs) = Inr xs"
| "AsValueSlice (CObject kvs) = Inr (map snd kvs)"
| "AsValueSlice _ = Inl Panic"

fun GetAttr :: "cty \<Rightarrow> string \<Rightarrow> failure + cty" where
  "GetAttr (CObject kvs) k = (case map_of kvs k of Some v \<Rightarrow> Inr v | None \<Rightarrow> Inl Panic)"
| "GetAttr _ k = Inl Panic"

text \<open>
  \<^verbatim>\<open>schema.ResourceData\<close>, the interface of the SDK the converters read: the raw
  configuration, the value at a path, \<^verbatim>\<open>GetOk\<close> (here \<open>Some v\<close> when it answers
  \<^verbatim>\<open>(v, true)\<close>; the code never reads the value otherwise), \<^verbatim>\<open>HasChange\<close>
  and \<^verbatim>\<open>IsNewResource\<close>.
\<close>

record ResourceData =
  GetRawConfig :: cty
  Get :: "string \<Rightarrow> val"
  GetOk :: "string \<Rightarrow> val option"
  HasChange :: "string \<Rightarrow> bool"
  IsNewResource :: bool

definition userConfigSuffix :: string where
  "userConfigSuffix = ''_user_config''"

subsection \<open>Expand: from the Terraform values to the DTO\<close>

record stateCompose =
  key :: string
  path :: string
  schema :: schema
  config :: cty
  resource :: ResourceData

text \<open>
  \<^verbatim>\<open>fmt.Sprintf("%v", v)\<close> of an element of a set. \<open>fv\<close> prints what is not
  a string, an int or a bool (a \<^verbatim>\<open>float64\<close>).
\<close>

definition sprintv :: "(val \<Rightarrow> string) \<Rightarrow> val \<Rightarrow> string" where
  "sprintv fv v =
     (case v of
        VString x \<Rightarrow> x
      | VInt i \<Rightarrow> showInt i
      | VBool b \<Rightarrow> (if b then ''true'' else ''false'')
      | _ \<Rightarrow> fv v)"

definition "value" :: "stateCompose \<Rightarrow> val" where
  "value s = Get (resource s) (path s)"

definition hasValue :: "stateCompose \<Rightarrow> bool" where
  "hasValue s \<longleftrightarrow>
     IsNull (config s) \<or> (CanIterateElements (config s) \<and> LengthInt (config s) = Inr 0)"

definition hasChange :: "stateCompose \<Rightarrow> bool" where
  "hasChange s = HasChange (resource s) (path s)"

text \<open>The keys of the \<^verbatim>\<open>hashes\<close> map of \<^verbatim>\<open>setItems\<close>.\<close>

fun hashesOf :: "cty list \<Rightarrow> failure + string list" where
  "hashesOf [] = Inr []"
| "hashesOf (CString x # items) = map_sum id (\<lambda>hs. x # hs) (hashesOf items)"
| "hashesOf (CNumber t # items) = map_sum id (\<lambda>hs. t # hs) (hashesOf items)"
| "hashesOf (_ # items) = Inl Panic"

definition setItems :: "(val \<Rightarrow> string) \<Rightarrow> stateCompose \<Rightarrow> failure + val list" where
  "setItems fv s =
     (if IsNull (config s) then Inr []
      else (case LengthInt (config s) of
              Inl e \<Rightarrow> Inl e
            | Inr n \<Rightarrow>
                (case AsValueSlice (config s) of
                   Inl e \<Rightarrow> Inl e
                 | Inr items \<Rightarrow>
                     (case hashesOf items of
                        Inl e \<Rightarrow> Inl e
                      | Inr hashes \<Rightarrow>
                          (case value s of
                             VSet xs \<Rightarrow> Inr (filter (\<lambda>v. sprintv fv v \<in> set hashes) xs)
                           | _ \<Rightarrow> Inl Panic)))))"

definition listItems :: "stateCompose \<Rightarrow> failure + stateCompose list" where
  "listItems s =
     (if IsNull (config s) then Inr []
      else (case AsValueSlice (config s) of
              Inl e \<Rightarrow> Inl e
            | Inr vs \<Rightarrow>
                Inr (map (\<lambda>(i, v). \<lparr>key = key s, path = path s @ ''.'' @ showNat i,
                                     schema = schema s, config = v, resource = resource s\<rparr>)
                         (enumerate 0 vs))))"

text \<open>
  The configuration and the state of the property \<open>k\<close> of an object: the
  attribute of the object's configuration (\<^verbatim>\<open>GetAttr\<close> panics when there is
  none), or the zero \<^verbatim>\<open>cty.Value\<close>, which is null, when the object's own
  configuration is null.
\<close>

definition propConfig :: "stateCompose \<Rightarrow> string \<Rightarrow> failure + cty" where
  "propConfig s k = (if \<not> IsNull (config s) then GetAttr (config s) k else Inr CNull)"

definition propState :: "stateCompose \<Rightarrow> string \<Rightarrow> schema \<Rightarrow> cty \<Rightarrow> stateCompose" where
  "propState s k subSchema c =
     \<lparr>key = k, path = path s @ ''.'' @ k, schema = subSchema, config = c, resource = resource s\<rparr>"

text \<open>
  The loop of \<^verbatim>\<open>objectProperties\<close> over \<^verbatim>\<open>res.Schema\<close>. The keys of a Go
  map are distinct, so each \<^verbatim>\<open>props[key] = p\<close> adds an entry.
\<close>

fun properties :: "stateCompose \<Rightarrow> (string \<times> schema) list \<Rightarrow> failure + (string \<times> stateCompose) list" where
  "properties s [] = Inr []"
| "properties s ((k, subSchema) # res) =
     (if ForceNew subSchema \<and> \<not> IsNewResource (resource s) then properties s res
      else (case propConfig s k of
              Inl e \<Rightarrow> Inl e
            | Inr c \<Rightarrow>
                map_sum id (\<lambda>props. (k, propState s k subSchema c) # props)
                  (properties s res)))"

definition objectProperties :: "stateCompose \<Rightarrow> failure + (string \<times> stateCompose) list" where
  "objectProperties s =
     (case Elem (schema s) of ElemResource res \<Rightarrow> properties s res | _ \<Rightarrow> Inl Panic)"

definition expandScalar :: "stateCompose \<Rightarrow> failure + val" where
  "expandScalar state = (if hasValue state then Inr VNil else Inr (value state))"

text \<open>
  The body of the loop of \<^verbatim>\<open>expandObj\<close> after \<^verbatim>\<open>expandAttr\<close> has answered:
  the first error ends the loop, a value that is not the nil interface is
  stored under its key.
\<close>

fun collectProps :: "(string \<times> (failure + val)) list \<Rightarrow> dto \<Rightarrow> failure + dto" where
  "collectProps [] m = Inr m"
| "collectProps ((k, r) # rest) m =
     (case r of
        Inl e \<Rightarrow> Inl (wrapField k e)
      | Inr v \<Rightarrow> collectProps rest (if v \<noteq> VNil then AList.update k v m else m))"

text \<open>The same for the loop of \<^verbatim>\<open>expandAttr\<close> over the elements of a list.\<close>

fun collectItems :: "(failure + val) list \<Rightarrow> val list \<Rightarrow> failure + val list" where
  "collectItems [] items = Inr items"
| "collectItems (r # rest) items =
     (case r of
        Inl e \<Rightarrow> Inl e
      | Inr exp \<Rightarrow> collectItems rest (if exp \<noteq> VNil then items @ [exp] else items))"

definition isResource :: "elem \<Rightarrow> bool" where
  "isResource e = (case e of ElemResource r \<Rightarrow> True | _ \<Rightarrow> False)"

text \<open>
  \<^verbatim>\<open>expandObj\<close> and \<^verbatim>\<open>expandAttr\<close>. The map returned by \<^verbatim>\<open>expandObj\<close> is put
  into an \<^verbatim>\<open>any\<close>, which is then never the nil interface, whatever the map
  holds.
\<close>

function expandObj :: "(val \<Rightarrow> string) \<Rightarrow> stateCompose \<Rightarrow> failure + dto"
and expandAttr :: "(val \<Rightarrow> string) \<Rightarrow> stateCompose \<Rightarrow> failure + val"
where
  "expandObj fv state =
     (case objectProperties state of
        Inl e \<Rightarrow> Inl e
      | Inr props \<Rightarrow> collectProps (map (\<lambda>(k, v). (k, expandAttr fv v)) props) [])"
| "expandAttr fv state =
     (if Type (schema state) \<noteq> TypeSet \<and> Type (schema state) \<noteq> TypeList then expandScalar state
      else if hasValue state \<and> \<not> hasChange state then Inr VNil
      else if Type (schema state) = TypeSet then map_sum id VList (setItems fv state)
      else (case listItems state of
              Inl e \<Rightarrow> Inl e
            | Inr states \<Rightarrow>
                (case collectItems
                        (map (\<lambda>s. if isResource (Elem (schema state))
                                   then map_sum id VMap (expandObj fv s)
                                   else expandScalar s) states) [] of
                   Inl e \<Rightarrow> Inl e
                 | Inr items \<Rightarrow>
                     if isResource (Elem (schema state)) \<and> MaxItems (schema state) = 1
                     then (case items of
                             [x] \<Rightarrow> Inr x
                           | [] \<Rightarrow> Inr VNil
                           | _ \<Rightarrow> Inr (VList items))
                     else Inr (VList items))))"
  by pat_completeness auto


text \<open>
  \<^verbatim>\<open>renameAliases\<close> is called as the last step but is not in the sources
  (only the table \<^verbatim>\<open>aliasFieldsMap\<close> it reads is); it is the parameter \<open>rn\<close>.
\<close>

definition aliasFieldsMap :: "(string \<times> string) list" where
  "aliasFieldsMap =
     [(''ip_filter_string'', ''ip_filter''),
      (''ip_filter_object'', ''ip_filter''),
      (''rules.0.mapping.0.namespaces_string'', ''namespaces''),
      (''rules.0.mapping.0.namespaces_object'', ''namespaces'')]"

definition Expand :: "(dto \<Rightarrow> dto) \<Rightarrow> (val \<Rightarrow> string) \<Rightarrow> string \<Rightarrow> schema \<Rightarrow> ResourceData \<Rightarrow> failure + dto" where
  "Expand rn fv kind s d =
     (let k = kind @ userConfigSuffix
      in case GetAttr (GetRawConfig d) k of
           Inl e \<Rightarrow> Inl e
         | Inr c \<Rightarrow>
             (case AsValueSlice c of
                Inl e \<Rightarrow> Inl e
              | Inr configs \<Rightarrow>
                  (case expandObj fv
                          \<lparr>key = k, path = k @ ''.0'', schema = s,
                           config = (case configs of [] \<Rightarrow> CNull | c0 # cs \<Rightarrow> c0),
                           resource = d\<rparr> of
                     Inl e \<Rightarrow> Inl e
                   | Inr dto \<Rightarrow> Inr (rn dto))))"

subsection \<open>Flatten: from the DTO to the Terraform object\<close>

text \<open>
  Modelled from the spec: \<^verbatim>\<open>castType\<close> is called by \<^verbatim>\<open>flattenAttr\<close> but is not
  in the sources. The specification says of a scalar: cast the DTO leaf to the
  schema's declared kind; a type mismatch is a fatal conversion error.
\<close>

definition castString :: "val \<Rightarrow> failure + val" where
  "castString data = (case data of VString x \<Rightarrow> Inr (VString x) | _ \<Rightarrow> Inl (Error InvalidType))"

definition castBool :: "val \<Rightarrow> failure + val" where
  "castBool data = (case data of VBool b \<Rightarrow> Inr (VBool b) | _ \<Rightarrow> Inl (Error InvalidType))"

text \<open>
  \<^verbatim>\<open>schema.NewSet\<close>: the set of the given values. The list of a \<open>VSet\<close> stands
  for the elements of the set, each once; it is kept in the order the values
  came in, which is not the order \<^verbatim>\<open>List()\<close> gives them in (by hash code), so
  nothing is to be read from it.
\<close>

definition NewSet :: "val list \<Rightarrow> val" where
  "NewSet values = VSet (remdups values)"

text \<open>
  The type assertions \<^verbatim>\<open>data.([]any)\<close> and \<^verbatim>\<open>item.(map[string]any)\<close>, which
  panic on anything else.
\<close>

definition assertList :: "val \<Rightarrow> failure + val list" where
  "assertList data = (case data of VList xs \<Rightarrow> Inr xs | _ \<Rightarrow> Inl Panic)"

definition assertMap :: "val \<Rightarrow> failure + dto" where
  "assertMap data = (case data of VMap m \<Rightarrow> Inr m | _ \<Rightarrow> Inl Panic)"

text \<open>
  The \<^verbatim>\<open>TypeInt\<close> and \<^verbatim>\<open>TypeFloat\<close> branches: \<^verbatim>\<open>data.(json.Number)\<close> is
  asserted without the comma-ok form, then parsed. \<open>pf\<close> is
  \<^verbatim>\<open>json.Number.Float64\<close>, \<open>None\<close> its error.
\<close>

definition flattenInt :: "val \<Rightarrow> failure + val" where
  "flattenInt data =
     (case data of
        VNumber n \<Rightarrow> (case Int64 n of Some i \<Rightarrow> Inr (VInt i) | None \<Rightarrow> Inl (Error InvalidNumber))
      | _ \<Rightarrow> Inl Panic)"

definition flattenFloat :: "(string \<Rightarrow> 64 word option) \<Rightarrow> val \<Rightarrow> failure + val" where
  "flattenFloat pf data =
     (case data of
        VNumber n \<Rightarrow> (case pf n of Some f \<Rightarrow> Inr (VFloat f) | None \<Rightarrow> Inl (Error InvalidNumber))
      | _ \<Rightarrow> Inl Panic)"

text \<open>
  The list handed to \<^verbatim>\<open>flattenList\<close>: a single object is a list with one
  element, unless it is empty; anything else must be a slice.
\<close>

definition objectList :: "val \<Rightarrow> failure + val list" where
  "objectList data =
     (case data of
        VMap obj \<Rightarrow> Inr (if obj \<noteq> [] then [VMap obj] else [])
      | _ \<Rightarrow> assertList data)"

text \<open>
  \<^verbatim>\<open>flattenObj\<close>, \<^verbatim>\<open>flattenAttr\<close> and \<^verbatim>\<open>flattenList\<close>, with their loops
  as functions of their own: \<open>flattenFields\<close> is the loop of \<^verbatim>\<open>flattenObj\<close>
  over the schema's fields, \<open>flattenSetItems\<close> the loop of the \<^verbatim>\<open>TypeSet\<close>
  branch, \<open>flattenItems\<close> the loop of \<^verbatim>\<open>flattenList\<close>. A nil map is the
  empty association list: \<^verbatim>\<open>flattenObj\<close> returns nil exactly when nothing was
  put into \<^verbatim>\<open>tfo\<close>. What \<^verbatim>\<open>flattenAttr\<close> returns without an error is never
  the nil interface (a nil slice in an \<^verbatim>\<open>any\<close> is not), so \<^verbatim>\<open>flattenObj\<close>
  stores it.
\<close>

function flattenObj :: "(string \<Rightarrow> 64 word option) \<Rightarrow> (string \<times> schema) list \<Rightarrow> dto \<Rightarrow> failure + dto"
and flattenFields :: "(string \<Rightarrow> 64 word option) \<Rightarrow> (string \<times> schema) list \<Rightarrow> dto \<Rightarrow> dto \<Rightarrow> failure + dto"
and flattenAttr :: "(string \<Rightarrow> 64 word option) \<Rightarrow> schema \<Rightarrow> val \<Rightarrow> failure + val"
and flattenSetItems :: "(string \<Rightarrow> 64 word option) \<Rightarrow> schema \<Rightarrow> val list \<Rightarrow> val list \<Rightarrow> failure + val list"
and flattenList :: "(string \<Rightarrow> 64 word option) \<Rightarrow> (string \<times> schema) list \<Rightarrow> val list \<Rightarrow> failure + val list"
and flattenItems :: "(string \<Rightarrow> 64 word option) \<Rightarrow> (string \<times> schema) list \<Rightarrow> val list \<Rightarrow> val list \<Rightarrow> failure + val list"
where
  "flattenObj pf s dto = flattenFields pf s dto []"
| "flattenFields pf [] dto tfo = Inr tfo"
| "flattenFields pf ((k, v) # s) dto tfo =
     (case map_of dto k of
        None \<Rightarrow> flattenFields pf s dto tfo
      | Some vv \<Rightarrow>
          if vv = VNil then flattenFields pf s dto tfo
          else (case flattenAttr pf v vv of
                  Inl e \<Rightarrow> Inl (wrapField k e)
                | Inr x \<Rightarrow> flattenFields pf s dto (if x \<noteq> VNil then AList.update k x tfo else tfo)))"
| "flattenAttr pf (Schema ty fn mx el) data =
     (if ty = TypeString then castString data
      else if ty = TypeBool then castBool data
      else if ty = TypeInt then flattenInt data
      else if ty = TypeFloat then flattenFloat pf data
      else (case el of
              ElemSchema scalar \<Rightarrow>
                if ty = TypeList then map_sum id VList (assertList data)
                else if ty = TypeSet then
                  (case assertList data of
                     Inl e \<Rightarrow> Inl e
                   | Inr xs \<Rightarrow> map_sum id NewSet (flattenSetItems pf scalar xs []))
                else Inl Panic
            | ElemResource r \<Rightarrow>
                (case objectList data of
                   Inl e \<Rightarrow> Inl e
                 | Inr list \<Rightarrow> map_sum id VList (flattenList pf r list))
            | ElemNil \<Rightarrow> Inl Panic))"
| "flattenSetItems pf scalar [] values = Inr values"
| "flattenSetItems pf scalar (v # vs) values =
     (case flattenAttr pf scalar v of
        Inl e \<Rightarrow> Inl e
      | Inr x \<Rightarrow> flattenSetItems pf scalar vs (values @ [x]))"
| "flattenList pf s list = (if list = [] then Inr [] else flattenItems pf s list [])"
| "flattenItems pf s [] items = Inr items"
| "flattenItems pf s (item # rest) items =
     (case assertMap item of
        Inl e \<Rightarrow> Inl e
      | Inr m \<Rightarrow>
          (case flattenObj pf s m of
             Inl e \<Rightarrow> Inl e
           | Inr v \<Rightarrow> flattenItems pf s rest (if v \<noteq> [] then items @ [VMap v] else items)))"
  by pat_completeness auto

termination
  by (relation "inv_image (less_than <*lex*> less_than) (\<lambda>x. case x of
        Inl (Inl (pf, s, dto)) \<Rightarrow> (4 * size_list (size_prod (\<lambda>x. 0) size) s + 1, 0)
      | Inl (Inr (Inl (pf, s, dto, tfo))) \<Rightarrow> (4 * size_list (size_prod (\<lambda>x. 0) size) s, 0)
      | Inl (Inr (Inr (pf, s, data))) \<Rightarrow> (4 * size s, 0)
      | Inr (Inl (pf, s, xs, values)) \<Rightarrow> (4 * size s + 1, length xs)
      | Inr (Inr (Inl (pf, s, list))) \<Rightarrow> (4 * size_list (size_prod (\<lambda>x. 0) size) s + 3, 0)
      | Inr (Inr (Inr (pf, s, xs, items))) \<Rightarrow> (4 * size_list (size_prod (\<lambda>x. 0) size) s + 2, length xs))")
    auto


subsection \<open>Aliases and create-only fields\<close>

text \<open>The value an object has under the ordering key; nil for anything else.\<close>

definition keyOf :: "string \<Rightarrow> val \<Rightarrow> val" where
  "keyOf sortBy v = (case v of VMap m \<Rightarrow> index m sortBy | _ \<Rightarrow> VNil)"

text \<open>The first place of a value in a list; the length of the list when it is not there.\<close>

fun position :: "val \<Rightarrow> val list \<Rightarrow> nat" where
  "position x [] = 0"
| "position x (y # ys) = (if x = y then 0 else Suc (position x ys))"

text \<open>
  Modelled from the spec: \<^verbatim>\<open>sortByKey\<close> is called by \<^verbatim>\<open>assignAlias\<close> but is not
  in the sources. The specification says that the elements of an object list
  fetched from the remote side are re-ordered to match the previously declared
  local order, by the ordering key. Here the DTO's objects are sorted, stably,
  by the place their key has among the keys of the state's objects; objects
  the state does not have come last. Anything that is not a pair of lists is
  left as it is.
\<close>

definition sortByKey :: "string \<Rightarrow> val \<Rightarrow> val \<Rightarrow> val" where
  "sortByKey sortBy originalSrc dtoSrc =
     (case originalSrc of
        VList original \<Rightarrow>
          (case dtoSrc of
             VList items \<Rightarrow>
               VList (sort_key (\<lambda>v. position (keyOf sortBy v) (map (keyOf sortBy) original)) items)
           | _ \<Rightarrow> dtoSrc)
      | _ \<Rightarrow> dtoSrc)"

text \<open>
  \<^verbatim>\<open>assignAlias\<close> changes the map it is given; here it returns the changed map.
\<close>

definition assignAlias :: "ResourceData \<Rightarrow> string \<Rightarrow> dto \<Rightarrow> string \<Rightarrow> string \<Rightarrow> dto" where
  "assignAlias d p dto k sortBy =
     (case map_of dto k of
        Some (VList values) \<Rightarrow>
          (case values of
             [] \<Rightarrow> dto
           | v0 # vs \<Rightarrow>
               let hasObjects = (case v0 of VMap m \<Rightarrow> True | _ \<Rightarrow> False);
                   dto1 = (if hasObjects
                           then (case GetOk d (p @ ''_object'') of
                                   Some inStateObjs \<Rightarrow>
                                     AList.update k (sortByKey sortBy inStateObjs (index dto k)) dto
                                 | None \<Rightarrow> dto)
                           else dto);
                   suffix = (case GetOk d (p @ ''_string'') of
                               Some x \<Rightarrow> ''_string''
                             | None \<Rightarrow> if hasObjects then ''_object'' else [])
               in if suffix \<noteq> []
                  then AList.delete k (AList.update (k @ suffix) (index dto1 k) dto1)
                  else dto1)
      | _ \<Rightarrow> dto)"

text \<open>
  Modelled from the spec: \<^verbatim>\<open>drillKey\<close> is called by \<^verbatim>\<open>Flatten\<close> but is not in
  the sources, and the specification only says that the logical name is renamed
  inside the DTO. It is called with the one path \<^verbatim>\<open>rules.0.mapping\<close>, in the
  notation of \<^verbatim>\<open>aliasFieldsMap\<close>; \<open>drillKey dto k1 k2\<close> stands for the path
  \<open>k1.0.k2\<close> and answers the value under \<open>k2\<close> of the first object of the array
  under \<open>k1\<close>, if there is one.
\<close>

definition drillKey :: "dto \<Rightarrow> string \<Rightarrow> string \<Rightarrow> val option" where
  "drillKey dto k1 k2 =
     (case map_of dto k1 of
        Some (VList (VMap r # rest)) \<Rightarrow> map_of r k2
      | _ \<Rightarrow> None)"

text \<open>
  The map \<^verbatim>\<open>drillKey\<close> answers is part of the DTO, and \<^verbatim>\<open>assignAlias\<close> changes
  it in place: \<open>putKey\<close> writes the changed map back where it was read.
\<close>

definition putKey :: "dto \<Rightarrow> string \<Rightarrow> string \<Rightarrow> val \<Rightarrow> dto" where
  "putKey dto k1 k2 new =
     (case map_of dto k1 of
        Some (VList (VMap r # rest)) \<Rightarrow>
          AList.update k1 (VList (VMap (AList.update k2 new r) # rest)) dto
      | _ \<Rightarrow> dto)"

definition createOnlyFields :: "string list" where
  "createOnlyFields = [''admin_username'', ''admin_password'']"

text \<open>The loop of \<^verbatim>\<open>Flatten\<close> over the create-only fields.\<close>

fun copyCreateOnly :: "ResourceData \<Rightarrow> string \<Rightarrow> string list \<Rightarrow> dto \<Rightarrow> dto" where
  "copyCreateOnly d prefix [] dto = dto"
| "copyCreateOnly d prefix (k # ks) dto =
     copyCreateOnly d prefix ks
       (case GetOk d (prefix @ k) of Some v \<Rightarrow> AList.update k v dto | None \<Rightarrow> dto)"

definition renameNamespaces :: "ResourceData \<Rightarrow> string \<Rightarrow> dto \<Rightarrow> failure + dto" where
  "renameNamespaces d prefix dto =
     (case drillKey dto ''rules'' ''mapping'' of
        None \<Rightarrow> Inr dto
      | Some mapping \<Rightarrow>
          (case assertMap mapping of
             Inl e \<Rightarrow> Inl e
           | Inr m \<Rightarrow>
               Inr (putKey dto ''rules'' ''mapping''
                      (VMap (assignAlias d (prefix @ ''rules.0.mapping.0.namespaces'') m
                               ''namespaces'' ''name'')))))"

definition renameIpFilter :: "ResourceData \<Rightarrow> string \<Rightarrow> dto \<Rightarrow> dto" where
  "renameIpFilter d prefix dto =
     (if map_of dto ''ip_filter'' \<noteq> None
      then assignAlias d (prefix @ ''ip_filter'') dto ''ip_filter'' ''network''
      else dto)"

text \<open>The DTO as it is when \<^verbatim>\<open>Flatten\<close> hands it to \<^verbatim>\<open>flattenObj\<close>.\<close>

definition prepareDto :: "string \<Rightarrow> ResourceData \<Rightarrow> dto \<Rightarrow> failure + dto" where
  "prepareDto kind d dto =
     (let prefix = kind @ userConfigSuffix @ ''.0.''
      in map_sum id (copyCreateOnly d prefix createOnlyFields)
           (renameNamespaces d prefix (renameIpFilter d prefix dto)))"

definition Flatten :: "(string \<Rightarrow> 64 word option) \<Rightarrow> string \<Rightarrow> schema \<Rightarrow> ResourceData \<Rightarrow> dto \<Rightarrow> failure + dto list" where
  "Flatten pf kind s d dto =
     (case prepareDto kind d dto of
        Inl e \<Rightarrow> Inl e
      | Inr dto' \<Rightarrow>
          (case Elem s of
             ElemResource r \<Rightarrow>
               (case flattenObj pf r dto' of
                  Inl e \<Rightarrow> Inl e
                | Inr tfo \<Rightarrow> if tfo = [] then Inr [] else Inr [tfo])
           | _ \<Rightarrow> Inl Panic))"

subsection \<open>Concrete resources for the examples\<close>

text \<open>
  A resource whose prior state records \<^verbatim>\<open>admin_password = "secret123"\<close> under
  \<^verbatim>\<open>pg_user_config\<close> and nothing else, and the schema of a user configuration
  with that one string field.
\<close>

definition secretData :: ResourceData where
  "secretData =
     \<lparr>GetRawConfig = CNull, Get = (\<lambda>p. VNil),
      GetOk = (\<lambda>p. if p = ''pg_user_config.0.admin_password''
                    then Some (VString ''secret123'') else None),
      HasChange = (\<lambda>p. False), IsNewResource = False\<rparr>"

definition secretSchema :: schema where
  "secretSchema =
     Schema TypeList False 1
       (ElemResource [(''admin_password'', Schema TypeString False 0 ElemNil)])"

text \<open>
  The object \<^verbatim>\<open>pglookout\<close> inside \<^verbatim>\<open>pg_user_config\<close>: a resource whose state
  holds \<^verbatim>\<open>max_lag = 10\<close>, with nothing changed since the prior apply, and the
  schema of the object.
\<close>

definition lookoutData :: ResourceData where
  "lookoutData =
     \<lparr>GetRawConfig = CNull,
      Get = (\<lambda>p. if p = ''pg_user_config.0.pglookout.0.max_lag'' then VInt 10 else VNil),
      GetOk = (\<lambda>p. None), HasChange = (\<lambda>p. False), IsNewResource = False\<rparr>"

definition lookoutFields :: "(string \<times> schema) list" where
  "lookoutFields =
     [(''max_lag'', Schema TypeInt False 0 ElemNil), (''note'', Schema TypeString False 0 ElemNil)]"

definition lookoutSchema :: schema where
  "lookoutSchema = Schema TypeList False 1 (ElemResource lookoutFields)"

text \<open>
  The state of the field \<^verbatim>\<open>pglookout\<close> itself, a list of at most one object,
  and of the user configuration around it, for a given raw configuration of the
  field.
\<close>

definition lookoutAttr :: "cty \<Rightarrow> stateCompose" where
  "lookoutAttr c =
     \<lparr>key = ''pglookout'', path = ''pg_user_config.0.pglookout'', schema = lookoutSchema,
      config = c, resource = lookoutData\<rparr>"

definition lookoutRoot :: "cty \<Rightarrow> stateCompose" where
  "lookoutRoot c =
     \<lparr>key = ''pg_user_config'', path = ''pg_user_config.0'',
      schema = Schema TypeList False 1 (ElemResource [(''pglookout'', lookoutSchema)]),
      config = CObject [(''pglookout'', c)], resource = lookoutData\<rparr>"

text \<open>
  A user configuration with the set of strings \<^verbatim>\<open>ip_filter\<close>, whose state
  holds one address: \<open>c\<close> is what the raw configuration has for the field,
  \<open>changed\<close> what \<^verbatim>\<open>HasChange\<close> answers.
\<close>

definition filterData :: "bool \<Rightarrow> ResourceData" where
  "filterData changed =
     \<lparr>GetRawConfig = CNull,
      Get = (\<lambda>p. if p = ''pg_user_config.0.ip_filter'' then VSet [VString ''10.0.0.0/8''] else VNil),
      GetOk = (\<lambda>p. None), HasChange = (\<lambda>p. changed), IsNewResource = False\<rparr>"

definition filterFields :: "(string \<times> schema) list" where
  "filterFields =
     [(''ip_filter'', Schema TypeSet False 0 (ElemSchema (Schema TypeString False 0 ElemNil)))]"

definition filterState :: "cty \<Rightarrow> bool \<Rightarrow> stateCompose" where
  "filterState c changed =
     \<lparr>key = ''pg_user_config'', path = ''pg_user_config.0'',
      schema = Schema TypeList False 1 (ElemResource filterFields),
      config = CObject [(''ip_filter'', c)],
      resource = filterData changed\<rparr>"

text \<open>
  A user configuration whose only field, \<^verbatim>\<open>service_to_fork_from\<close>, is marked
  \<^verbatim>\<open>ForceNew\<close> and written by the user, for a new resource and for one that
  exists.
\<close>

definition forkData :: "bool \<Rightarrow> ResourceData" where
  "forkData isNew =
     \<lparr>GetRawConfig = CNull,
      Get = (\<lambda>p. if p = ''pg_user_config.0.service_to_fork_from'' then VString ''origin'' else VNil),
      GetOk = (\<lambda>p. None), HasChange = (\<lambda>p. False), IsNewResource = isNew\<rparr>"

definition forkFields :: "(string \<times> schema) list" where
  "forkFields = [(''service_to_fork_from'', Schema TypeString True 0 ElemNil)]"

definition forkState :: "bool \<Rightarrow> stateCompose" where
  "forkState isNew =
     \<lparr>key = ''pg_user_config'', path = ''pg_user_config.0'',
      schema = Schema TypeList False 1 (ElemResource forkFields),
      config = CObject [(''service_to_fork_from'', CString ''origin'')],
      resource = forkData isNew\<rparr>"

text \<open>
  A user configuration with the three fields of the alias group \<^verbatim>\<open>ip_filter\<close>,
  and a resource whose prior state stores the object-shaped alias, with the
  network \<^verbatim>\<open>10.2.0.0/16\<close> before \<^verbatim>\<open>10.1.0.0/16\<close>.
\<close>

definition stringSchema :: schema where
  "stringSchema = Schema TypeString False 0 ElemNil"

definition ipObjectFields :: "(string \<times> schema) list" where
  "ipObjectFields = [(''network'', stringSchema), (''description'', stringSchema)]"

definition ipFields :: "(string \<times> schema) list" where
  "ipFields =
     [(''ip_filter'', Schema TypeSet False 0 (ElemSchema stringSchema)),
      (''ip_filter_string'', Schema TypeSet False 0 (ElemSchema stringSchema)),
      (''ip_filter_object'', Schema TypeList False 0 (ElemResource ipObjectFields))]"

definition ipSchema :: schema where
  "ipSchema = Schema TypeList False 1 (ElemResource ipFields)"

definition ipData :: ResourceData where
  "ipData =
     \<lparr>GetRawConfig = CNull, Get = (\<lambda>p. VNil),
      GetOk = (\<lambda>p. if p = ''pg_user_config.0.ip_filter_object''
                    then Some (VList [VMap [(''network'', VString ''10.2.0.0/16''),
                                            (''description'', VString ''office'')],
                                      VMap [(''network'', VString ''10.1.0.0/16''),
                                            (''description'', VString ''home'')]])
                    else None),
      HasChange = (\<lambda>p. False), IsNewResource = False\<rparr>"







text \<open>
  A user configuration in which the user wrote \<^verbatim>\<open>timezone\<close> only: the set
  \<^verbatim>\<open>ip_filter\<close> is null in the raw configuration, the block \<^verbatim>\<open>pglookout\<close> is
  there as the empty list, as a block that was never written is. The state has
  values for all three (those of the two unwritten fields were fetched from the
  API), and only \<^verbatim>\<open>timezone\<close> has changed.
\<close>

definition sparseData :: ResourceData where
  "sparseData =
     \<lparr>GetRawConfig = CNull,
      Get = (\<lambda>p. if p = ''pg_user_config.0.timezone'' then VString ''UTC''
                  else if p = ''pg_user_config.0.ip_filter'' then VSet [VString ''10.0.0.0/8'']
                  else if p = ''pg_user_config.0.pglookout'' then VList [VMap [(''max_lag'', VInt 10)]]
                  else VNil),
      GetOk = (\<lambda>p. None),
      HasChange = (\<lambda>p. p = ''pg_user_config.0.timezone''),
      IsNewResource = False\<rparr>"

definition sparseFields :: "(string \<times> schema) list" where
  "sparseFields =
     [(''timezone'', Schema TypeString False 0 ElemNil),
      (''ip_filter'', Schema TypeSet False 0 (ElemSchema (Schema TypeString False 0 ElemNil))),
      (''pglookout'', lookoutSchema)]"

definition sparseState :: stateCompose where
  "sparseState =
     \<lparr>key = ''pg_user_config'', path = ''pg_user_config.0'',
      schema = Schema TypeList False 1 (ElemResource sparseFields),
      config = CObject [(''timezone'', CString ''UTC''), (''ip_filter'', CNull),
                        (''pglookout'', CList [])],
      resource = sparseData\<rparr>"

text \<open>
  A resource whose prior state stores the string-shaped alias
  \<^verbatim>\<open>ip_filter_string\<close>.
\<close>

definition ipStringData :: ResourceData where
  "ipStringData =
     \<lparr>GetRawConfig = CNull, Get = (\<lambda>p. VNil),
      GetOk = (\<lambda>p. if p = ''pg_user_config.0.ip_filter_string''
                    then Some (VSet [VString ''10.3.0.0/16'']) else None),
      HasChange = (\<lambda>p. False), IsNewResource = False\<rparr>"


section \<open>Termination of the expansion\<close>

lemma properties_schema:
  "properties s res = Inr props \<Longrightarrow> (k, p) \<in> set props \<Longrightarrow> (k, schema p) \<in> set res"
proof (induction res arbitrary: props)
  case Nil
  then show ?case by simp
next
  case (Cons a res)
  obtain k' sub where a: "a = (k', sub)" by (cases a)
  show ?case using Cons unfolding a
    by (auto split: if_splits sum.splits simp: map_sum_def propState_def)
qed

lemma field_size: "(k, sub) \<in> set res \<Longrightarrow> size sub < size (Schema ty fn mx (ElemResource res))"
  by (induction res) auto

lemma listItems_schema: "listItems s = Inr states \<Longrightarrow> x \<in> set states \<Longrightarrow> schema x = schema s"
  by (auto simp: listItems_def split: if_splits sum.splits)

termination expandObj
proof (relation "measure (\<lambda>x. case x of
         Inl (fv, s) \<Rightarrow> 2 * size (schema s)
       | Inr (fv, s) \<Rightarrow> 2 * size (schema s) + 1)", goal_cases)
  case 1
  show ?case by simp
next
  case (2 fv state props kv k v)
  then show ?case
    by (cases "schema state")
       (auto simp: objectProperties_def split: elem.splits dest!: properties_schema field_size)
next
  case (3 fv state states s)
  then show ?case by (auto dest: listItems_schema)
qed

declare expandObj.simps [simp del] expandAttr.simps [simp del]


section \<open>The DTO that reaches \<open>flattenObj\<close>\<close>

lemma map_of_copyCreateOnly_other:
  "k \<notin> set ks \<Longrightarrow> map_of (copyCreateOnly d prefix ks dto) k = map_of dto k"
  by (induction ks arbitrary: dto) (auto simp: update_conv' split: option.splits)

lemma map_of_copyCreateOnly_in:
  "k \<in> set ks \<Longrightarrow> GetOk d (prefix @ k) = Some v \<Longrightarrow>
   map_of (copyCreateOnly d prefix ks dto) k = Some v"
proof (induction ks arbitrary: dto)
  case Nil
  then show ?case by simp
next
  case (Cons a ks)
  show ?case
  proof (cases "k \<in> set ks")
    case True
    with Cons show ?thesis by simp
  next
    case False
    with Cons.prems have "a = k" by simp
    with False Cons.prems show ?thesis
      by (simp add: map_of_copyCreateOnly_other update_conv')
  qed
qed

lemma prepareDto_createOnly:
  assumes "prepareDto kind d dto = Inr dto'"
    and "k \<in> set createOnlyFields"
    and "GetOk d (kind @ userConfigSuffix @ ''.0.'' @ k) = Some v"
  shows "map_of dto' k = Some v"
proof -
  from assms(1) obtain dto2 where
    "dto' = copyCreateOnly d (kind @ userConfigSuffix @ ''.0.'') createOnlyFields dto2"
    by (auto simp: prepareDto_def Let_def map_sum_def split: sum.splits)
  with assms(2,3) show ?thesis
    by (simp add: map_of_copyCreateOnly_in)
qed

lemma prepareDto_plain:
  "map_of dto ''ip_filter'' = None \<Longrightarrow> map_of dto ''rules'' = None \<Longrightarrow>
   prepareDto kind d dto =
     Inr (copyCreateOnly d (kind @ userConfigSuffix @ ''.0.'') createOnlyFields dto)"
  by (simp add: prepareDto_def renameIpFilter_def renameNamespaces_def drillKey_def)

section \<open>What \<open>flattenObj\<close> stores\<close>

lemma flattenFields_other:
  "k \<notin> fst ` set flds \<Longrightarrow> flattenFields pf flds dto tfo = Inr r \<Longrightarrow> map_of r k = map_of tfo k"
proof (induction flds arbitrary: tfo)
  case Nil
  then show ?case by simp
next
  case (Cons a flds)
  obtain k' sub where a: "a = (k', sub)" by (cases a)
  from Cons.prems(1) have k: "k \<noteq> k'" and notin: "k \<notin> fst ` set flds" by (auto simp: a)
  from Cons.prems(2) Cons.IH[OF notin] k show ?case
    by (auto simp: a update_conv' split: option.splits if_splits sum.splits)
qed

lemma flattenFields_string:
  assumes "distinct (map fst flds)" "map_of flds k = Some sch" "Type sch = TypeString"
    and "map_of dto k = Some (VString v)"
    and "flattenFields pf flds dto tfo = Inr r"
  shows "map_of r k = Some (VString v)"
  using assms
proof (induction flds arbitrary: tfo)
  case Nil
  then show ?case by simp
next
  case (Cons a flds)
  obtain k' sub where a: "a = (k', sub)" by (cases a)
  show ?case
  proof (cases "k' = k")
    case True
    with Cons.prems a have sub: "sub = sch" and notin: "k \<notin> fst ` set flds" by auto
    obtain ty fn mx el where sch: "sch = Schema ty fn mx el" by (cases sch)
    with Cons.prems(3) have ty: "ty = TypeString" by simp
    from Cons.prems(5) have "flattenFields pf flds dto (AList.update k (VString v) tfo) = Inr r"
      by (simp add: a True sub sch ty Cons.prems(4) castString_def)
    from flattenFields_other[OF notin this] show ?thesis
      by (simp add: update_conv')
  next
    case False
    with Cons.prems a have d: "distinct (map fst flds)" and m: "map_of flds k = Some sch" by auto
    from Cons.prems(5) obtain tfo' where "flattenFields pf flds dto tfo' = Inr r"
      by (auto simp: a split: option.splits if_splits sum.splits)
    from Cons.IH[OF d m Cons.prems(3,4) this] show ?thesis .
  qed
qed

lemma Flatten_createOnly:
  assumes "k \<in> set createOnlyFields"
    and "GetOk d (kind @ userConfigSuffix @ ''.0.'' @ k) = Some (VString v)"
    and "Elem s = ElemResource flds" "distinct (map fst flds)"
    and "map_of flds k = Some sch" "Type sch = TypeString"
    and "Flatten pf kind s d dto = Inr r"
  shows "\<exists>tfo. r = [tfo] \<and> map_of tfo k = Some (VString v)"
proof -
  from assms(7,3) obtain dto' tfo where p: "prepareDto kind d dto = Inr dto'"
    and f: "flattenFields pf flds dto' [] = Inr tfo" and r: "r = (if tfo = [] then [] else [tfo])"
    by (auto simp: Flatten_def split: sum.splits if_splits)
  from prepareDto_createOnly[OF p assms(1,2)] have "map_of dto' k = Some (VString v)" .
  from flattenFields_string[OF assms(4,5,6) this f] have m: "map_of tfo k = Some (VString v)" .
  then have "tfo \<noteq> []" by auto
  with r m show ?thesis by simp
qed

section \<open>Kind mismatches in \<open>Flatten\<close>\<close>

text \<open>
  Every error that \<^verbatim>\<open>Flatten\<close> returns names the field it comes from; what
  \<^verbatim>\<open>Flatten\<close> does before \<^verbatim>\<open>flattenObj\<close> can only panic.
\<close>

lemma flattenFields_error_names_field:
  "flattenFields pf flds dto tfo = Inl (Error e) \<Longrightarrow> \<exists>k e'. e = FieldConversionError k e'"
proof (induction flds arbitrary: tfo)
  case Nil
  then show ?case by simp
next
  case (Cons a flds)
  obtain k' sub where a: "a = (k', sub)" by (cases a)
  from Cons.prems consider
      (rest) tfo' where "flattenFields pf flds dto tfo' = Inl (Error e)"
    | (here) f where "wrapField k' f = Error e"
    by (auto simp: a split: option.splits if_splits sum.splits)
  then show ?case
  proof cases
    case (rest tfo')
    then show ?thesis by (rule Cons.IH)
  next
    case (here f)
    then show ?thesis by (cases f) (auto simp: wrapField_def)
  qed
qed

lemma Flatten_error_names_field:
  assumes "Flatten pf kind s d dto = Inl (Error e)"
  shows "errorFields e \<noteq> []"
proof -
  have "prepareDto kind d dto \<noteq> Inl (Error e)"
    by (auto simp: prepareDto_def Let_def renameNamespaces_def assertMap_def map_sum_def
          split: option.splits val.splits sum.splits)
  with assms obtain flds dto' where "flattenFields pf flds dto' [] = Inl (Error e)"
    by (auto simp: Flatten_def split: sum.splits elem.splits if_splits)
  from flattenFields_error_names_field[OF this] show ?thesis by auto
qed

text \<open>
  A number where the schema declares a string is answered with such an error.
\<close>

lemma Flatten_string_mismatch_is_error:
  "Flatten pf kind
     (Schema TypeList False 1 (ElemResource [(''name'', Schema TypeString False 0 ElemNil)])) d
     [(''name'', VNumber ''5'')]
   = Inl (Error (FieldConversionError ''name'' InvalidType))"
proof -
  let ?dto = "[(''name'', VNumber ''5'')]"
  let ?c = "copyCreateOnly d (kind @ userConfigSuffix @ ''.0.'') createOnlyFields ?dto"
  have p: "prepareDto kind d ?dto = Inr ?c"
    by (rule prepareDto_plain) simp_all
  have m: "map_of ?c ''name'' = Some (VNumber ''5'')"
    by (subst map_of_copyCreateOnly_other) (simp_all add: createOnlyFields_def)
  show ?thesis
    by (simp add: Flatten_def p m castString_def wrapField_def)
qed

text \<open>
  Claim C2. A DTO value that does not match the declared kind should make
  \<^verbatim>\<open>Flatten\<close> return an error that names the field. For a field declared
  \<^verbatim>\<open>TypeInt\<close> that holds a JSON string, and for a list of strings that holds a
  JSON string instead of an array, the unchecked type assertions
  \<^verbatim>\<open>data.(json.Number)\<close> and \<^verbatim>\<open>data.([]any)\<close> panic: no error is returned,
  whatever the resource data are.
\<close>

theorem Flatten_kind_mismatch_panics:
  "Flatten pf kind
     (Schema TypeList False 1 (ElemResource [(''port'', Schema TypeInt False 0 ElemNil)])) d
     [(''port'', VString ''abc'')] = Inl Panic
   \<and> Flatten pf kind
     (Schema TypeList False 1
        (ElemResource [(''tags'', Schema TypeList False 0
                                   (ElemSchema (Schema TypeString False 0 ElemNil)))])) d
     [(''tags'', VString ''abc'')] = Inl Panic"
proof -
  let ?p = "kind @ userConfigSuffix @ ''.0.''"
  let ?dto1 = "[(''port'', VString ''abc'')]"
  let ?dto2 = "[(''tags'', VString ''abc'')]"
  have p1: "prepareDto kind d ?dto1 = Inr (copyCreateOnly d ?p createOnlyFields ?dto1)"
    by (rule prepareDto_plain) simp_all
  have m1: "map_of (copyCreateOnly d ?p createOnlyFields ?dto1) ''port'' = Some (VString ''abc'')"
    by (subst map_of_copyCreateOnly_other) (simp_all add: createOnlyFields_def)
  have p2: "prepareDto kind d ?dto2 = Inr (copyCreateOnly d ?p createOnlyFields ?dto2)"
    by (rule prepareDto_plain) simp_all
  have m2: "map_of (copyCreateOnly d ?p createOnlyFields ?dto2) ''tags'' = Some (VString ''abc'')"
    by (subst map_of_copyCreateOnly_other) (simp_all add: createOnlyFields_def)
  have "Flatten pf kind
     (Schema TypeList False 1 (ElemResource [(''port'', Schema TypeInt False 0 ElemNil)])) d
     ?dto1 = Inl Panic"
    by (simp add: Flatten_def p1 m1 flattenInt_def wrapField_def)
  moreover have "Flatten pf kind
     (Schema TypeList False 1
        (ElemResource [(''tags'', Schema TypeList False 0
                                   (ElemSchema (Schema TypeString False 0 ElemNil)))])) d
     ?dto2 = Inl Panic"
    by (simp add: Flatten_def p2 m2 assertList_def wrapField_def)
  ultimately show ?thesis by simp
qed

section \<open>Create-only fields\<close>

text \<open>
  Claim C6. When the incoming DTO has no key for a create-only field
  (\<^verbatim>\<open>admin_username\<close>, \<^verbatim>\<open>admin_password\<close>) and the prior state records a string
  for it, every result \<^verbatim>\<open>Flatten\<close> returns holds one object with that field
  set to the recorded string. The field is a string field of the schema, whose
  keys are distinct as those of a Go map are.
\<close>

theorem Flatten_createOnly_carry_over:
  assumes "k \<in> set createOnlyFields"
    and "map_of dto k = None"
    and "GetOk d (kind @ userConfigSuffix @ ''.0.'' @ k) = Some (VString v)"
    and "Elem s = ElemResource flds" "distinct (map fst flds)"
    and "map_of flds k = Some sch" "Type sch = TypeString"
    and "Flatten pf kind s d dto = Inr r"
  shows "\<exists>tfo. r = [tfo] \<and> map_of tfo k = Some (VString v)"
  using assms(1,3-8) by (rule Flatten_createOnly)

theorem Flatten_createOnly_carry_over_witness:
  "''admin_password'' \<in> set createOnlyFields
   \<and> map_of ([] :: dto) ''admin_password'' = None
   \<and> GetOk secretData (''pg'' @ userConfigSuffix @ ''.0.'' @ ''admin_password'')
       = Some (VString ''secret123'')
   \<and> Elem secretSchema = ElemResource [(''admin_password'', Schema TypeString False 0 ElemNil)]
   \<and> distinct (map fst [(''admin_password'', Schema TypeString False 0 ElemNil)])
   \<and> Flatten (\<lambda>n. None) ''pg'' secretSchema secretData []
       = Inr [[(''admin_password'', VString ''secret123'')]]
   \<and> (\<exists>tfo. [[(''admin_password'', VString ''secret123'')]] = [tfo]
          \<and> map_of tfo ''admin_password'' = Some (VString ''secret123''))"
  using Flatten_createOnly_carry_over
          [of "''admin_password''" "[]" secretData "''pg''" "''secret123''" secretSchema
              "[(''admin_password'', Schema TypeString False 0 ElemNil)]"
              "Schema TypeString False 0 ElemNil" "\<lambda>n. None"
              "[[(''admin_password'', VString ''secret123'')]]"]
  by (simp add: Flatten_def prepareDto_def renameIpFilter_def renameNamespaces_def drillKey_def
        createOnlyFields_def secretData_def secretSchema_def userConfigSuffix_def castString_def)

text \<open>
  Claim C10. When the prior state holds a string for a create-only field, the
  value the incoming DTO has under that key is replaced by it: every result
  \<^verbatim>\<open>Flatten\<close> returns holds the state's string, whatever the DTO held.
\<close>

theorem Flatten_createOnly_overrides_dto:
  assumes "k \<in> set createOnlyFields"
    and "map_of dto k = Some w"
    and "GetOk d (kind @ userConfigSuffix @ ''.0.'' @ k) = Some (VString v)"
    and "Elem s = ElemResource flds" "distinct (map fst flds)"
    and "map_of flds k = Some sch" "Type sch = TypeString"
    and "Flatten pf kind s d dto = Inr r"
  shows "\<exists>tfo. r = [tfo] \<and> map_of tfo k = Some (VString v)"
  using assms(1,3-8) by (rule Flatten_createOnly)

theorem Flatten_createOnly_overrides_dto_witness:
  "''admin_password'' \<in> set createOnlyFields
   \<and> map_of [(''admin_password'', VString ''from the API'')] ''admin_password''
       = Some (VString ''from the API'')
   \<and> GetOk secretData (''pg'' @ userConfigSuffix @ ''.0.'' @ ''admin_password'')
       = Some (VString ''secret123'')
   \<and> Elem secretSchema = ElemResource [(''admin_password'', Schema TypeString False 0 ElemNil)]
   \<and> distinct (map fst [(''admin_password'', Schema TypeString False 0 ElemNil)])
   \<and> Flatten (\<lambda>n. None) ''pg'' secretSchema secretData
         [(''admin_password'', VString ''from the API'')]
       = Inr [[(''admin_password'', VString ''secret123'')]]
   \<and> (\<exists>tfo. [[(''admin_password'', VString ''secret123'')]] = [tfo]
          \<and> map_of tfo ''admin_password'' = Some (VString ''secret123''))"
  using Flatten_createOnly_overrides_dto
          [of "''admin_password''" "[(''admin_password'', VString ''from the API'')]"
              "VString ''from the API''" secretData "''pg''" "''secret123''" secretSchema
              "[(''admin_password'', Schema TypeString False 0 ElemNil)]"
              "Schema TypeString False 0 ElemNil" "\<lambda>n. None"
              "[[(''admin_password'', VString ''secret123'')]]"]
  by (simp add: Flatten_def prepareDto_def renameIpFilter_def renameNamespaces_def drillKey_def
        createOnlyFields_def secretData_def secretSchema_def userConfigSuffix_def castString_def)


section \<open>What \<open>expandObj\<close> stores\<close>

lemma collectProps_untouched:
  "collectProps rs m = Inr m' \<Longrightarrow> (\<And>r. (k, r) \<in> set rs \<Longrightarrow> r = Inr VNil) \<Longrightarrow>
   map_of m' k = map_of m k"
proof (induction rs arbitrary: m)
  case Nil
  then show ?case by simp
next
  case (Cons a rs)
  obtain k' r where a: "a = (k', r)" by (cases a)
  from Cons.prems(1) obtain v where r: "r = Inr v"
    and rest: "collectProps rs (if v \<noteq> VNil then AList.update k' v m else m) = Inr m'"
    by (auto simp: a split: sum.splits)
  have "map_of m' k = map_of (if v \<noteq> VNil then AList.update k' v m else m) k"
    using rest Cons.prems(2) by (intro Cons.IH) auto
  moreover have "k' = k \<Longrightarrow> v = VNil"
    using Cons.prems(2)[of r] by (simp add: a r)
  ultimately show ?case by (auto simp: update_conv')
qed

lemma collectProps_all_Inr:
  "collectProps rs m = Inr m' \<Longrightarrow> (k, r) \<in> set rs \<Longrightarrow> \<exists>v. r = Inr v"
  by (induction rs arbitrary: m) (auto split: sum.splits)

lemma collectProps_distinct:
  "collectProps rs m = Inr m' \<Longrightarrow> distinct (map fst rs) \<Longrightarrow> (k, Inr v) \<in> set rs \<Longrightarrow>
   map_of m' k = (if v = VNil then map_of m k else Some v)"
proof (induction rs arbitrary: m)
  case Nil
  then show ?case by simp
next
  case (Cons a rs)
  obtain k' r where a: "a = (k', r)" by (cases a)
  from Cons.prems(1) obtain w where r: "r = Inr w"
    and rest: "collectProps rs (if w \<noteq> VNil then AList.update k' w m else m) = Inr m'"
    by (auto simp: a split: sum.splits)
  show ?case
  proof (cases "(k, Inr v) \<in> set rs")
    case True
    with Cons.prems(2) have "k' \<noteq> k" by (force simp: a)
    moreover from Cons.prems(2) have "distinct (map fst rs)" by simp
    from Cons.IH[OF rest this True]
    have "map_of m' k = (if v = VNil then map_of (if w \<noteq> VNil then AList.update k' w m else m) k else Some v)" .
    ultimately show ?thesis by (auto simp: update_conv')
  next
    case False
    with Cons.prems(3) have kk: "k' = k" and wv: "w = v" by (auto simp: a r)
    from Cons.prems(2) have "k \<notin> fst ` set rs" by (simp add: a kk)
    then have "\<And>r. (k, r) \<in> set rs \<Longrightarrow> r = Inr VNil" by force
    from collectProps_untouched[OF rest this]
    show ?thesis by (auto simp: kk wv update_conv')
  qed
qed

lemma properties_ConsE:
  assumes "properties s ((k', sub') # res) = Inr props"
  obtains (skip) "ForceNew sub' \<and> \<not> IsNewResource (resource s)" "properties s res = Inr props"
  | (keep) c ps where "\<not> (ForceNew sub' \<and> \<not> IsNewResource (resource s))"
      "propConfig s k' = Inr c" "properties s res = Inr ps"
      "props = (k', propState s k' sub' c) # ps"
proof (cases "ForceNew sub' \<and> \<not> IsNewResource (resource s)")
  case True
  with assms skip show ?thesis by simp
next
  case False
  with assms obtain c ps where "propConfig s k' = Inr c" "properties s res = Inr ps"
    "props = (k', propState s k' sub' c) # ps"
    by (cases "propConfig s k'"; cases "properties s res") auto
  with False keep show ?thesis by blast
qed

lemma properties_entry:
  "properties s res = Inr props \<Longrightarrow> (k, p) \<in> set props \<Longrightarrow>
   \<exists>sub c. (k, sub) \<in> set res \<and> \<not> (ForceNew sub \<and> \<not> IsNewResource (resource s))
      \<and> propConfig s k = Inr c \<and> p = propState s k sub c"
proof (induction res arbitrary: props)
  case Nil
  then show ?case by simp
next
  case (Cons a res)
  obtain k' sub' where a: "a = (k', sub')" by (cases a)
  from Cons.prems(1) have pr: "properties s ((k', sub') # res) = Inr props"
    by (simp only: a)
  from pr show ?case
  proof (cases rule: properties_ConsE)
    case skip
    from Cons.IH[OF skip(2) Cons.prems(2)] show ?thesis by (auto simp: a)
  next
    case (keep c ps)
    show ?thesis
    proof (cases "(k, p) \<in> set ps")
      case True
      from Cons.IH[OF keep(3) True] show ?thesis by (auto simp: a)
    next
      case False
      with Cons.prems(2) keep(4) have "k = k'" "p = propState s k' sub' c" by auto
      with keep(1,2) show ?thesis by (auto simp: a)
    qed
  qed
qed

lemma properties_member:
  "properties s res = Inr props \<Longrightarrow> (k, sub) \<in> set res \<Longrightarrow>
   \<not> (ForceNew sub \<and> \<not> IsNewResource (resource s)) \<Longrightarrow>
   \<exists>c. propConfig s k = Inr c \<and> (k, propState s k sub c) \<in> set props"
proof (induction res arbitrary: props)
  case Nil
  then show ?case by simp
next
  case (Cons a res)
  obtain k' sub' where a: "a = (k', sub')" by (cases a)
  from Cons.prems(1) have pr: "properties s ((k', sub') # res) = Inr props"
    by (simp only: a)
  from pr show ?case
  proof (cases rule: properties_ConsE)
    case skip
    with Cons.prems(2,3) have "(k, sub) \<in> set res" by (auto simp: a)
    from Cons.IH[OF skip(2) this Cons.prems(3)] show ?thesis .
  next
    case (keep c ps)
    show ?thesis
    proof (cases "(k, sub) \<in> set res")
      case True
      from Cons.IH[OF keep(3) True Cons.prems(3)] keep(4) show ?thesis by auto
    next
      case False
      with Cons.prems(2) have "k = k'" "sub = sub'" by (auto simp: a)
      with keep(2,4) show ?thesis by auto
    qed
  qed
qed

lemma properties_keys:
  "properties s res = Inr props \<Longrightarrow> distinct (map fst res) \<Longrightarrow>
   distinct (map fst props) \<and> fst ` set props \<subseteq> fst ` set res"
proof (induction res arbitrary: props)
  case Nil
  then show ?case by simp
next
  case (Cons a res)
  obtain k' sub' where a: "a = (k', sub')" by (cases a)
  from Cons.prems(2) have d: "distinct (map fst res)" and n: "k' \<notin> fst ` set res"
    by (auto simp: a)
  from Cons.prems(1) have pr: "properties s ((k', sub') # res) = Inr props"
    by (simp only: a)
  from pr show ?case
  proof (cases rule: properties_ConsE)
    case skip
    from Cons.IH[OF skip(2) d] show ?thesis by (auto simp: a)
  next
    case (keep c ps)
    from Cons.IH[OF keep(3) d] n keep(4) show ?thesis by (auto simp: a)
  qed
qed


lemma expandAttr_unwritten_unchanged:
  "hasValue p \<Longrightarrow> \<not> hasChange p \<Longrightarrow> expandAttr fv p = Inr VNil"
  by (simp add: expandAttr.simps expandScalar_def)

lemma expandObj_cases:
  assumes "expandObj fv st = Inr m"
  obtains res props where "Elem (schema st) = ElemResource res" "properties st res = Inr props"
    "collectProps (map (\<lambda>(k, v). (k, expandAttr fv v)) props) [] = Inr m"
  using assms
  by (auto simp: expandObj.simps objectProperties_def split: sum.splits elem.splits)


section \<open>Fields the user never wrote\<close>

text \<open>
  Claim C4. Take any object of the configuration, at any depth, with its
  state \<open>st\<close>, and a field \<open>k\<close> of it that the user never wrote: what the raw
  configuration has for \<open>k\<close> is null (also when the object itself is null
  there), or an iterable of length zero, which is how a block or collection
  that was never written shows (line 146). If the value at the field's path
  has not changed since the prior apply, the DTO object \<^verbatim>\<open>expandObj\<close> builds
  for \<open>st\<close> has no key \<open>k\<close>. Every object of the DTO that \<^verbatim>\<open>Expand\<close> returns is
  built by such a call; the root one is handed to \<^verbatim>\<open>renameAliases\<close>.
\<close>

theorem expandObj_omits_unwritten_unchanged:
  assumes "expandObj fv st = Inr m"
    and "propConfig st k = Inr c"
    and "c = CNull \<or> CanIterateElements c \<and> LengthInt c = Inr 0"
    and "\<not> HasChange (resource st) (path st @ ''.'' @ k)"
  shows "map_of m k = None"
proof -
  from assms(1) obtain res props where props: "properties st res = Inr props"
    and coll: "collectProps (map (\<lambda>(k, v). (k, expandAttr fv v)) props) [] = Inr m"
    by (rule expandObj_cases)
  have "r = Inr VNil" if "(k, r) \<in> set (map (\<lambda>(k, v). (k, expandAttr fv v)) props)" for r
  proof -
    from that obtain p where p: "(k, p) \<in> set props" and r: "r = expandAttr fv p" by auto
    from properties_entry[OF props p] assms(2) obtain sub where "p = propState st k sub c"
      by auto
    with assms(3,4) have "expandAttr fv p = Inr VNil"
      by (intro expandAttr_unwritten_unchanged)
         (auto simp: propState_def hasValue_def hasChange_def IsNull_def)
    with r show ?thesis by simp
  qed
  from collectProps_untouched[OF coll this] show ?thesis by simp
qed

lemma sparse_eval: "expandObj fv sparseState = Inr [(''timezone'', VString ''UTC'')]"
  by (simp add: expandObj.simps expandAttr.simps objectProperties_def sparseState_def sparseData_def
     sparseFields_def lookoutSchema_def lookoutFields_def propConfig_def propState_def IsNull_def
     expandScalar_def hasValue_def hasChange_def value_def)

theorem expandObj_omits_unwritten_unchanged_witness:
  "expandObj (\<lambda>v. []) sparseState = Inr [(''timezone'', VString ''UTC'')]
   \<and> propConfig sparseState ''pglookout'' = Inr (CList [])
   \<and> CanIterateElements (CList []) \<and> LengthInt (CList []) = Inr 0
   \<and> \<not> HasChange (resource sparseState) (path sparseState @ ''.'' @ ''pglookout'')
   \<and> map_of [(''timezone'', VString ''UTC'')] ''pglookout'' = None
   \<and> propConfig sparseState ''ip_filter'' = Inr CNull
   \<and> \<not> HasChange (resource sparseState) (path sparseState @ ''.'' @ ''ip_filter'')
   \<and> map_of [(''timezone'', VString ''UTC'')] ''ip_filter'' = None"
  using expandObj_omits_unwritten_unchanged
          [of "\<lambda>v. []" sparseState "[(''timezone'', VString ''UTC'')]" "''pglookout''" "CList []"]
        expandObj_omits_unwritten_unchanged
          [of "\<lambda>v. []" sparseState "[(''timezone'', VString ''UTC'')]" "''ip_filter''" CNull]
  by (simp add: sparse_eval) (simp add: sparseState_def sparseData_def propConfig_def IsNull_def)


text \<open>
  The DTO that \<^verbatim>\<open>Expand\<close> returns is what \<^verbatim>\<open>renameAliases\<close> makes of the object
  that \<^verbatim>\<open>expandObj\<close> builds for the root state.
\<close>

lemma Expand_is_expandObj:
  assumes "Expand rn fv kind s d = Inr dto"
  obtains c m where
    "expandObj fv \<lparr>key = kind @ userConfigSuffix, path = kind @ userConfigSuffix @ ''.0'',
                   schema = s, config = c, resource = d\<rparr> = Inr m"
    "dto = rn m"
  using assms
  by (auto simp: Expand_def Let_def split: sum.splits)


section \<open>One field of an expanded object\<close>

lemma expandObj_field:
  assumes "expandObj fv st = Inr m"
    and "Elem (schema st) = ElemResource res" "distinct (map fst res)"
    and "map_of res k = Some sub" "\<not> (ForceNew sub \<and> \<not> IsNewResource (resource st))"
  shows "\<exists>c v. propConfig st k = Inr c
           \<and> expandAttr fv (propState st k sub c) = Inr v
           \<and> map_of m k = (if v = VNil then None else Some v)"
proof -
  let ?rs = "\<lambda>props. map (\<lambda>(k, v). (k, expandAttr fv v)) props"
  from assms(1,2) obtain props where props: "properties st res = Inr props"
    and coll: "collectProps (?rs props) [] = Inr m"
    by (auto elim: expandObj_cases)
  from assms(4) have "(k, sub) \<in> set res" by (rule map_of_SomeD)
  from properties_member[OF props this assms(5)] obtain c where c: "propConfig st k = Inr c"
    and mem: "(k, propState st k sub c) \<in> set props" by auto
  from mem have mem': "(k, expandAttr fv (propState st k sub c)) \<in> set (?rs props)" by force
  from collectProps_all_Inr[OF coll mem'] obtain v where
    v: "expandAttr fv (propState st k sub c) = Inr v" by auto
  from properties_keys[OF props assms(3)] have "distinct (map fst (?rs props))"
    by (simp add: comp_def case_prod_unfold)
  from collectProps_distinct[OF coll this, of k v] mem' v
  have "map_of m k = (if v = VNil then None else Some v)" by simp
  with c v show ?thesis by blast
qed


section \<open>Fields marked \<open>ForceNew\<close>\<close>

text \<open>
  Claim C8. A field \<open>k\<close> whose schema is marked \<^verbatim>\<open>ForceNew\<close> is left out of
  the DTO object when the resource already exists. For a new resource it is
  expanded like any other field: \<^verbatim>\<open>expandAttr\<close> is run on its state, and its
  key is stored unless the answer is the nil interface.
\<close>

theorem expandObj_forceNew:
  assumes "expandObj fv st = Inr m"
    and "Elem (schema st) = ElemResource res" "distinct (map fst res)"
    and "map_of res k = Some sub" "ForceNew sub"
  shows "(\<not> IsNewResource (resource st) \<longrightarrow> map_of m k = None)
       \<and> (IsNewResource (resource st) \<longrightarrow>
            (\<exists>c v. propConfig st k = Inr c
                 \<and> expandAttr fv (propState st k sub c) = Inr v
                 \<and> map_of m k = (if v = VNil then None else Some v)))"
proof -
  let ?rs = "\<lambda>props. map (\<lambda>(k, v). (k, expandAttr fv v)) props"
  from assms(1,2) obtain props where props: "properties st res = Inr props"
    and coll: "collectProps (?rs props) [] = Inr m"
    by (auto elim: expandObj_cases)
  from assms(3,4) have only: "sub' = sub" if "(k, sub') \<in> set res" for sub'
    using that by (auto dest: map_of_is_SomeI)
  have old: "map_of m k = None" if "\<not> IsNewResource (resource st)"
  proof -
    have "r = Inr VNil" if r: "(k, r) \<in> set (?rs props)" for r
    proof -
      from r obtain p where "(k, p) \<in> set props" by auto
      from properties_entry[OF props this] obtain sub' where "(k, sub') \<in> set res"
        "\<not> (ForceNew sub' \<and> \<not> IsNewResource (resource st))" by auto
      with only assms(5) \<open>\<not> IsNewResource (resource st)\<close> show ?thesis by auto
    qed
    from collectProps_untouched[OF coll this] show ?thesis by simp
  qed
  have new: "\<exists>c v. propConfig st k = Inr c \<and> expandAttr fv (propState st k sub c) = Inr v
                 \<and> map_of m k = (if v = VNil then None else Some v)"
    if "IsNewResource (resource st)"
    using that by (intro expandObj_field[OF assms(1-4)]) simp
  from old new show ?thesis by blast
qed

lemma fork_eval:
  "expandObj fv (forkState False) = Inr []"
  "expandObj fv (forkState True) = Inr [(''service_to_fork_from'', VString ''origin'')]"
  by (simp_all add: expandObj.simps expandAttr.simps objectProperties_def forkState_def forkData_def
     forkFields_def propConfig_def propState_def IsNull_def expandScalar_def hasValue_def value_def)

theorem expandObj_forceNew_witness:
  "expandObj (\<lambda>v. []) (forkState False) = Inr []
   \<and> expandObj (\<lambda>v. []) (forkState True) = Inr [(''service_to_fork_from'', VString ''origin'')]
   \<and> Elem (schema (forkState False)) = ElemResource forkFields
   \<and> Elem (schema (forkState True)) = ElemResource forkFields
   \<and> distinct (map fst forkFields)
   \<and> map_of forkFields ''service_to_fork_from'' = Some (Schema TypeString True 0 ElemNil)
   \<and> ForceNew (Schema TypeString True 0 ElemNil)
   \<and> \<not> IsNewResource (resource (forkState False))
   \<and> IsNewResource (resource (forkState True))
   \<and> map_of ([] :: dto) ''service_to_fork_from'' = None
   \<and> map_of [(''service_to_fork_from'', VString ''origin'')] ''service_to_fork_from''
       = Some (VString ''origin'')"
  using expandObj_forceNew
          [of "\<lambda>v. []" "forkState False" "[]" forkFields "''service_to_fork_from''"
              "Schema TypeString True 0 ElemNil"]
        expandObj_forceNew
          [of "\<lambda>v. []" "forkState True" "[(''service_to_fork_from'', VString ''origin'')]"
              forkFields "''service_to_fork_from''" "Schema TypeString True 0 ElemNil"]
  by (simp add: fork_eval) (simp add: forkState_def forkData_def forkFields_def)


section \<open>Empty and omitted sets\<close>

lemma expandAttr_empty_set:
  assumes "Type (schema p) = TypeSet" "config p = CNull \<or> config p = CList []"
    and "Get (resource p) (path p) = VSet xs"
  shows "expandAttr fv p = (if HasChange (resource p) (path p) then Inr (VList []) else Inr VNil)"
  using assms
  by (auto simp: expandAttr.simps hasValue_def hasChange_def IsNull_def setItems_def value_def)

lemma filter_eval:
  "expandObj fv (filterState (CList []) False) = Inr []"
  "expandObj fv (filterState CNull False) = Inr []"
  "expandObj fv (filterState (CList []) True) = Inr [(''ip_filter'', VList [])]"
  "expandObj fv (filterState CNull True) = Inr [(''ip_filter'', VList [])]"
  by (simp_all add: expandObj.simps expandAttr.simps objectProperties_def filterState_def filterData_def
     filterFields_def propConfig_def propState_def IsNull_def expandScalar_def hasValue_def value_def
     hasChange_def setItems_def)

text \<open>
  Claim C3, as stated, is refuted. For the set of strings \<^verbatim>\<open>ip_filter\<close>: an
  explicit empty sequence that has not changed since the prior apply gives a
  DTO without the key, not the array \<^verbatim>\<open>[]\<close>; an omitted field that has changed
  gives the key with \<^verbatim>\<open>[]\<close>, not no key; and with the same answer of
  \<^verbatim>\<open>HasChange\<close> the two configurations give the same DTO.
\<close>

theorem empty_set_not_distinguished_counterexample:
  "expandObj (\<lambda>v. []) (filterState (CList []) False) = Inr []
   \<and> expandObj (\<lambda>v. []) (filterState CNull True) = Inr [(''ip_filter'', VList [])]
   \<and> expandObj (\<lambda>v. []) (filterState (CList []) True) = expandObj (\<lambda>v. []) (filterState CNull True)
   \<and> expandObj (\<lambda>v. []) (filterState (CList []) False) = expandObj (\<lambda>v. []) (filterState CNull False)"
  by (simp add: filter_eval)

text \<open>
  Claim C3, amended. \<^verbatim>\<open>hasValue\<close> answers the same for a null and for an empty
  sequence, so for a set field an explicit empty sequence and an omitted field
  are expanded alike: the key with the array \<^verbatim>\<open>[]\<close> when the field has changed
  since the prior apply, no key when it has not.
\<close>

theorem expandObj_empty_set_like_omitted:
  assumes "expandObj fv st = Inr m"
    and "Elem (schema st) = ElemResource res" "distinct (map fst res)"
    and "map_of res k = Some sub" "Type sub = TypeSet"
    and "\<not> (ForceNew sub \<and> \<not> IsNewResource (resource st))"
    and "propConfig st k = Inr CNull \<or> propConfig st k = Inr (CList [])"
    and "Get (resource st) (path st @ ''.'' @ k) = VSet xs"
  shows "map_of m k =
           (if HasChange (resource st) (path st @ ''.'' @ k) then Some (VList []) else None)"
proof -
  from expandObj_field[OF assms(1-4,6)] obtain c v where c: "propConfig st k = Inr c"
    and v: "expandAttr fv (propState st k sub c) = Inr v"
    and m: "map_of m k = (if v = VNil then None else Some v)" by blast
  from c assms(7) have "config (propState st k sub c) = CNull \<or> config (propState st k sub c) = CList []"
    by (auto simp: propState_def)
  from expandAttr_empty_set[OF _ this, of xs fv] assms(5,8) v
  have "v = (if HasChange (resource st) (path st @ ''.'' @ k) then VList [] else VNil)"
    by (auto simp: propState_def split: if_splits)
  with m show ?thesis by simp
qed

theorem expandObj_empty_set_like_omitted_witness:
  "expandObj (\<lambda>v. []) (filterState (CList []) True) = Inr [(''ip_filter'', VList [])]
   \<and> expandObj (\<lambda>v. []) (filterState CNull True) = Inr [(''ip_filter'', VList [])]
   \<and> Elem (schema (filterState (CList []) True)) = ElemResource filterFields
   \<and> Elem (schema (filterState CNull True)) = ElemResource filterFields
   \<and> distinct (map fst filterFields)
   \<and> map_of filterFields ''ip_filter''
       = Some (Schema TypeSet False 0 (ElemSchema (Schema TypeString False 0 ElemNil)))
   \<and> propConfig (filterState (CList []) True) ''ip_filter'' = Inr (CList [])
   \<and> propConfig (filterState CNull True) ''ip_filter'' = Inr CNull
   \<and> Get (filterData True) ''pg_user_config.0.ip_filter'' = VSet [VString ''10.0.0.0/8'']
   \<and> HasChange (filterData True) ''pg_user_config.0.ip_filter''
   \<and> map_of [(''ip_filter'', VList [])] ''ip_filter'' = Some (VList [])"
  using expandObj_empty_set_like_omitted
          [of "\<lambda>v. []" "filterState (CList []) True" "[(''ip_filter'', VList [])]" filterFields
              "''ip_filter''" "Schema TypeSet False 0 (ElemSchema (Schema TypeString False 0 ElemNil))"
              "[VString ''10.0.0.0/8'']"]
        expandObj_empty_set_like_omitted
          [of "\<lambda>v. []" "filterState CNull True" "[(''ip_filter'', VList [])]" filterFields
              "''ip_filter''" "Schema TypeSet False 0 (ElemSchema (Schema TypeString False 0 ElemNil))"
              "[VString ''10.0.0.0/8'']"]
  by (simp add: filter_eval) (simp add: filterState_def filterData_def filterFields_def propConfig_def IsNull_def)


section \<open>Singleton objects\<close>

lemma flattenFields_empty_dto: "flattenFields pf res [] tfo0 = Inr tfo \<Longrightarrow> tfo = tfo0"
  by (induction res arbitrary: tfo0) auto

lemma listItems_one:
  "config p = CList [c] \<Longrightarrow> listItems p = Inr [p\<lparr>path := path p @ ''.0'', config := c\<rparr>]"
  by (simp add: listItems_def IsNull_def showNat.simps)

lemma listItems_none:
  "config p = CNull \<or> config p = CList [] \<Longrightarrow> listItems p = Inr []"
  by (auto simp: listItems_def IsNull_def)

lemma lookout_attr_eval:
  "expandAttr fv (lookoutAttr (CList [CObject [(''max_lag'', CNumber ''10''), (''note'', CNull)]]))
     = Inr (VMap [(''max_lag'', VInt 10)])"
  "expandAttr fv (lookoutAttr CNull) = Inr VNil"
  "expandObj fv ((lookoutAttr (CList [CObject [(''max_lag'', CNumber ''10''), (''note'', CNull)]]))
       \<lparr>path := ''pg_user_config.0.pglookout.0'',
        config := CObject [(''max_lag'', CNumber ''10''), (''note'', CNull)]\<rparr>)
     = Inr [(''max_lag'', VInt 10)]"
  by (simp_all add: expandObj.simps expandAttr.simps objectProperties_def lookoutAttr_def lookoutData_def
     lookoutSchema_def lookoutFields_def listItems_def showNat.simps isResource_def hasChange_def
     propConfig_def propState_def IsNull_def expandScalar_def hasValue_def value_def)

lemma lookout_attr_fields:
  "path (lookoutAttr c) = ''pg_user_config.0.pglookout''" "config (lookoutAttr c) = c"
  "schema (lookoutAttr c) = lookoutSchema"
  by (simp_all add: lookoutAttr_def)

lemma lookout_flatten_eval:
  "flattenAttr pf lookoutSchema (VMap [(''max_lag'', VNumber ''10'')]) = Inr (VList [VMap [(''max_lag'', VInt 10)]])"
  "flattenObj pf lookoutFields [(''max_lag'', VNumber ''10'')] = Inr [(''max_lag'', VInt 10)]"
  "flattenAttr pf lookoutSchema (VMap [(''unknown'', VString ''x'')]) = Inr (VList [])"
  "flattenAttr pf lookoutSchema (VMap []) = Inr (VList [])"
  by (simp_all add: lookoutSchema_def lookoutFields_def objectList_def assertMap_def flattenInt_def
        Int64_def digitVal_def)

lemma lookout_root_eval:
  "expandObj fv (lookoutRoot (CList [CObject [(''max_lag'', CNull), (''note'', CNull)]]))
     = Inr [(''pglookout'', VMap [])]"
  by (simp add: expandObj.simps expandAttr.simps objectProperties_def lookoutRoot_def lookoutData_def
     lookoutSchema_def lookoutFields_def listItems_def showNat.simps isResource_def hasChange_def
     propConfig_def propState_def IsNull_def expandScalar_def hasValue_def value_def)

text \<open>
  Claim C1, as stated, is refuted. A plain DTO object none of whose keys is a
  field of the schema, and the empty object, are flattened to a list of no
  element, not of one. And a singleton whose one declared element expands to
  the empty object is sent as \<^verbatim>\<open>{}\<close> under its key: the map \<^verbatim>\<open>expandObj\<close>
  returns is never the nil interface that the loop of \<^verbatim>\<open>expandAttr\<close> tests for.
\<close>

theorem singleton_object_collapse_counterexample:
  "flattenAttr (\<lambda>n. None) lookoutSchema (VMap [(''unknown'', VString ''x'')]) = Inr (VList [])
   \<and> flattenAttr (\<lambda>n. None) lookoutSchema (VMap []) = Inr (VList [])
   \<and> expandObj (\<lambda>v. []) (lookoutRoot (CList [CObject [(''max_lag'', CNull), (''note'', CNull)]]))
       = Inr [(''pglookout'', VMap [])]"
  by (simp add: lookout_flatten_eval lookout_root_eval)

text \<open>
  Claim C1, amended. For a list-of-objects field with \<^verbatim>\<open>MaxItems == 1\<close>: when
  exactly one element is declared and its expansion is not empty, \<^verbatim>\<open>expandAttr\<close>
  answers that object itself, not an array; when no element is declared, it
  answers nil, so that no key is stored; and \<^verbatim>\<open>flattenAttr\<close>, given a plain DTO
  object that flattens to at least one field, answers a list of exactly that
  one element.
\<close>

theorem singleton_object_collapse:
  assumes "Type sch = TypeList" "Elem sch = ElemResource res" "MaxItems sch = 1" "schema p = sch"
  shows "(config p = CList [c] \<and> expandObj fv (p\<lparr>path := path p @ ''.0'', config := c\<rparr>) = Inr m0
            \<and> m0 \<noteq> [] \<longrightarrow> expandAttr fv p = Inr (VMap m0))
       \<and> (config p = CNull \<or> config p = CList [] \<longrightarrow> expandAttr fv p = Inr VNil)
       \<and> (flattenObj pf res obj = Inr tfo \<and> tfo \<noteq> []
            \<longrightarrow> flattenAttr pf sch (VMap obj) = Inr (VList [VMap tfo]))"
proof (intro conjI impI)
  assume a: "config p = CList [c] \<and> expandObj fv (p\<lparr>path := path p @ ''.0'', config := c\<rparr>) = Inr m0 \<and> m0 \<noteq> []"
  then have "\<not> hasValue p" by (simp add: hasValue_def IsNull_def)
  with a assms show "expandAttr fv p = Inr (VMap m0)"
    by (simp add: expandAttr.simps [of fv p] listItems_one isResource_def)
next
  assume "config p = CNull \<or> config p = CList []"
  from listItems_none[OF this] assms show "expandAttr fv p = Inr VNil"
    by (simp add: expandAttr.simps [of fv p] isResource_def)
next
  assume f: "flattenObj pf res obj = Inr tfo \<and> tfo \<noteq> []"
  then have "obj \<noteq> []" by (auto dest: flattenFields_empty_dto)
  obtain ty fn mx el where sch: "sch = Schema ty fn mx el" by (cases sch)
  with assms f \<open>obj \<noteq> []\<close> show "flattenAttr pf sch (VMap obj) = Inr (VList [VMap tfo])"
    by (simp add: objectList_def assertMap_def del: flattenObj.simps)
qed

theorem singleton_object_collapse_witness:
  "Type lookoutSchema = TypeList \<and> Elem lookoutSchema = ElemResource lookoutFields
   \<and> MaxItems lookoutSchema = 1
   \<and> expandObj (\<lambda>v. [])
        ((lookoutAttr (CList [CObject [(''max_lag'', CNumber ''10''), (''note'', CNull)]]))
           \<lparr>path := ''pg_user_config.0.pglookout.0'',
            config := CObject [(''max_lag'', CNumber ''10''), (''note'', CNull)]\<rparr>)
       = Inr [(''max_lag'', VInt 10)]
   \<and> expandAttr (\<lambda>v. []) (lookoutAttr (CList [CObject [(''max_lag'', CNumber ''10''), (''note'', CNull)]]))
       = Inr (VMap [(''max_lag'', VInt 10)])
   \<and> expandAttr (\<lambda>v. []) (lookoutAttr CNull) = Inr VNil
   \<and> flattenObj (\<lambda>n. None) lookoutFields [(''max_lag'', VNumber ''10'')] = Inr [(''max_lag'', VInt 10)]
   \<and> flattenAttr (\<lambda>n. None) lookoutSchema (VMap [(''max_lag'', VNumber ''10'')])
       = Inr (VList [VMap [(''max_lag'', VInt 10)]])"
  using singleton_object_collapse
          [of lookoutSchema lookoutFields
              "lookoutAttr (CList [CObject [(''max_lag'', CNumber ''10''), (''note'', CNull)]])"
              "CObject [(''max_lag'', CNumber ''10''), (''note'', CNull)]" "\<lambda>v. []"
              "[(''max_lag'', VInt 10)]" "\<lambda>n. None" "[(''max_lag'', VNumber ''10'')]"
              "[(''max_lag'', VInt 10)]"]
        singleton_object_collapse
          [of lookoutSchema lookoutFields "lookoutAttr CNull" CNull "\<lambda>v. []"
              "[(''max_lag'', VInt 10)]" "\<lambda>n. None" "[(''max_lag'', VNumber ''10'')]"
              "[(''max_lag'', VInt 10)]"]
  by (simp add: lookout_attr_eval lookout_flatten_eval lookout_attr_fields del: flattenObj.simps)
     (simp add: lookoutSchema_def)



text \<open>
  A plain object that flattens to nothing, the empty object included, gives a
  list of no element.
\<close>

lemma flattenAttr_object_without_fields:
  assumes "Type sch = TypeList" "Elem sch = ElemResource res"
    and "flattenObj pf res obj = Inr []"
  shows "flattenAttr pf sch (VMap obj) = Inr (VList [])"
proof -
  obtain ty fn mx el where sch: "sch = Schema ty fn mx el" by (cases sch)
  with assms show ?thesis
    by (simp add: objectList_def assertMap_def del: flattenObj.simps)
qed


section \<open>More on what \<open>flattenObj\<close> stores\<close>

lemma flattenAttr_not_nil: "flattenAttr pf s data = Inr x \<Longrightarrow> x \<noteq> VNil"
proof (cases s)
  case (Schema ty fn mx el)
  assume "flattenAttr pf s data = Inr x"
  then show ?thesis unfolding Schema
    by (auto simp: castString_def castBool_def flattenInt_def flattenFloat_def NewSet_def map_sum_def
          split: if_splits val.splits option.splits elem.splits sum.splits)
qed

lemma flattenFields_field:
  assumes "distinct (map fst flds)" "map_of flds k = Some sub"
    and "map_of dto k = Some vv" "vv \<noteq> VNil"
    and "flattenFields pf flds dto tfo0 = Inr tfo"
  shows "\<exists>x. flattenAttr pf sub vv = Inr x \<and> map_of tfo k = Some x"
  using assms
proof (induction flds arbitrary: tfo0)
  case Nil
  then show ?case by simp
next
  case (Cons a flds)
  obtain k' sub' where a: "a = (k', sub')" by (cases a)
  show ?case
  proof (cases "k' = k")
    case True
    with Cons.prems a have sub: "sub' = sub" and notin: "k \<notin> fst ` set flds" by auto
    from Cons.prems(5) obtain x where x: "flattenAttr pf sub vv = Inr x"
      and rest: "flattenFields pf flds dto (if x \<noteq> VNil then AList.update k x tfo0 else tfo0) = Inr tfo"
      by (auto simp: a True sub Cons.prems(3,4) split: sum.splits)
    from flattenAttr_not_nil[OF x] flattenFields_other[OF notin rest] x show ?thesis
      by (simp add: update_conv')
  next
    case False
    with Cons.prems a have d: "distinct (map fst flds)" and m: "map_of flds k = Some sub" by auto
    from Cons.prems(5) obtain tfo' where "flattenFields pf flds dto tfo' = Inr tfo"
      by (auto simp: a split: option.splits if_splits sum.splits)
    from Cons.IH[OF d m Cons.prems(3,4) this] show ?thesis .
  qed
qed

lemma flattenFields_keys:
  "flattenFields pf flds dto tfo0 = Inr tfo \<Longrightarrow> map_of tfo k \<noteq> None \<Longrightarrow>
   map_of tfo0 k \<noteq> None \<or> map_of dto k \<noteq> None"
proof (induction flds arbitrary: tfo0)
  case Nil
  then show ?case by simp
next
  case (Cons a flds)
  obtain k' sub' where a: "a = (k', sub')" by (cases a)
  from Cons.prems(1) consider
      (skip) "flattenFields pf flds dto tfo0 = Inr tfo"
    | (store) vv x where "map_of dto k' = Some vv"
        "flattenFields pf flds dto (AList.update k' x tfo0) = Inr tfo"
    by (auto simp: a split: option.splits if_splits sum.splits)
  then show ?case
  proof cases
    case skip
    from Cons.IH[OF skip Cons.prems(2)] show ?thesis .
  next
    case (store vv x)
    from Cons.IH[OF store(2) Cons.prems(2)] store(1) show ?thesis
      by (cases "k = k'") (auto simp: update_conv')
  qed
qed


section \<open>The renaming of aliases\<close>

lemma assignAlias_not_list:
  "(\<And>v vs. map_of dto k \<noteq> Some (VList (v # vs))) \<Longrightarrow> assignAlias d p dto k sortBy = dto"
  by (auto simp: assignAlias_def split: option.splits val.splits list.splits)

lemma assignAlias_strings:
  "map_of dto k = Some (VList (v # vs)) \<Longrightarrow> (\<And>m. v \<noteq> VMap m) \<Longrightarrow>
   GetOk d (p @ ''_string'') = None \<Longrightarrow> assignAlias d p dto k sortBy = dto"
  by (auto simp: assignAlias_def split: val.splits)

lemma assignAlias_object:
  assumes "map_of dto k = Some (VList (VMap m # vs))" "GetOk d (p @ ''_string'') = None"
    and "map_of dto (k @ ''_string'') = None"
  shows "map_of (assignAlias d p dto k sortBy) (k @ ''_object'')
           = Some (case GetOk d (p @ ''_object'') of
                     Some inStateObjs \<Rightarrow> sortByKey sortBy inStateObjs (VList (VMap m # vs))
                   | None \<Rightarrow> VList (VMap m # vs))
       \<and> map_of (assignAlias d p dto k sortBy) (k @ ''_string'') = None
       \<and> map_of (assignAlias d p dto k sortBy) k = None"
  using assms
  by (auto simp: assignAlias_def Let_def update_conv' delete_conv' index_def split: option.splits)

lemma assignAlias_string_state:
  assumes "map_of dto k = Some (VList (v # vs))" "GetOk d (p @ ''_string'') = Some x"
    and "map_of dto (k @ ''_object'') = None"
  shows "map_of (assignAlias d p dto k sortBy) (k @ ''_object'') = None
       \<and> map_of (assignAlias d p dto k sortBy) k = None"
  using assms
  by (auto simp: assignAlias_def Let_def update_conv' delete_conv' index_def split: option.splits val.splits)

lemma renameNamespaces_other:
  "renameNamespaces d prefix dto = Inr dto' \<Longrightarrow> k \<noteq> ''rules'' \<Longrightarrow> map_of dto' k = map_of dto k"
  by (auto simp: renameNamespaces_def putKey_def update_conv' assertMap_def
        split: option.splits val.splits list.splits sum.splits)

lemma prepareDto_other:
  assumes "prepareDto kind d dto = Inr dto'" "k \<noteq> ''rules''" "k \<notin> set createOnlyFields"
  shows "map_of dto' k = map_of (renameIpFilter d (kind @ userConfigSuffix @ ''.0.'') dto) k"
proof -
  let ?p = "kind @ userConfigSuffix @ ''.0.''"
  from assms(1) obtain dto2 where r: "renameNamespaces d ?p (renameIpFilter d ?p dto) = Inr dto2"
    and c: "dto' = copyCreateOnly d ?p createOnlyFields dto2"
    by (auto simp: prepareDto_def Let_def map_sum_def split: sum.splits)
  from c assms(3) have "map_of dto' k = map_of dto2 k"
    by (simp add: map_of_copyCreateOnly_other)
  with renameNamespaces_other[OF r assms(2)] show ?thesis by simp
qed

lemma assignAlias_object_value:
  assumes "map_of dto k = Some (VList (VMap m # vs))" "GetOk d (p @ ''_string'') = None"
  shows "map_of (assignAlias d p dto k sortBy) (k @ ''_object'')
           = Some (case GetOk d (p @ ''_object'') of
                     Some inStateObjs \<Rightarrow> sortByKey sortBy inStateObjs (VList (VMap m # vs))
                   | None \<Rightarrow> VList (VMap m # vs))"
  using assms
  by (auto simp: assignAlias_def Let_def update_conv' delete_conv' index_def split: option.splits)

text \<open>At most one of the three keys of \<open>ip_filter\<close> after the renaming.\<close>

lemma renameIpFilter_exclusive:
  assumes "map_of dto ''ip_filter_string'' = None" "map_of dto ''ip_filter_object'' = None"
  shows "length (filter (\<lambda>k. map_of (renameIpFilter d prefix dto) k \<noteq> None)
                   [''ip_filter'', ''ip_filter_string'', ''ip_filter_object'']) \<le> 1"
proof (cases "\<exists>v vs. map_of dto ''ip_filter'' = Some (VList (v # vs))")
  case False
  then have "renameIpFilter d prefix dto = dto"
    by (auto simp: renameIpFilter_def intro: assignAlias_not_list)
  with assms show ?thesis by simp
next
  case True
  then obtain v vs where l: "map_of dto ''ip_filter'' = Some (VList (v # vs))" by blast
  then have r: "renameIpFilter d prefix dto
                  = assignAlias d (prefix @ ''ip_filter'') dto ''ip_filter'' ''network''"
    by (simp add: renameIpFilter_def)
  show ?thesis
  proof (cases "GetOk d ((prefix @ ''ip_filter'') @ ''_string'')")
    case (Some x)
    from assignAlias_string_state[OF l Some, of "''network''"] assms(2) show ?thesis
      by (simp add: r)
  next
    case None
    show ?thesis
    proof (cases "\<exists>m. v = VMap m")
      case True
      then obtain m where "v = VMap m" by blast
      with l have "map_of dto ''ip_filter'' = Some (VList (VMap m # vs))" by simp
      from assignAlias_object[OF this None, of "''network''"] assms(1) show ?thesis
        by (simp add: r)
    next
      case False
      then have "assignAlias d (prefix @ ''ip_filter'') dto ''ip_filter'' ''network'' = dto"
        using l None by (intro assignAlias_strings) auto
      with assms show ?thesis by (simp add: r)
    qed
  qed
qed

lemma length_filter_mono:
  "(\<And>k. k \<in> set ks \<Longrightarrow> P k \<Longrightarrow> Q k) \<Longrightarrow> length (filter P ks) \<le> length (filter Q ks)"
  by (induction ks) auto

lemma Flatten_cases:
  assumes "Flatten pf kind s d dto = Inr r"
  obtains flds dto' tfo where "Elem s = ElemResource flds" "prepareDto kind d dto = Inr dto'"
    "flattenFields pf flds dto' [] = Inr tfo" "r = (if tfo = [] then [] else [tfo])"
  using assms
  by (auto simp: Flatten_def split: sum.splits elem.splits if_splits)

lemmas flatten_eval_defs =
  Flatten_def prepareDto_def renameIpFilter_def renameNamespaces_def drillKey_def assignAlias_def
  createOnlyFields_def userConfigSuffix_def castString_def castBool_def objectList_def assertList_def
  assertMap_def NewSet_def sortByKey_def keyOf_def index_def map_sum_def

lemma ip_eval:
  "Flatten pf ''pg'' ipSchema ipData [(''ip_filter'', VList [VString ''a'', VString ''b''])]
     = Inr [[(''ip_filter'', VSet [VString ''a'', VString ''b''])]]"
  "Flatten pf ''pg'' ipSchema ipData
     [(''ip_filter'', VList [VMap [(''network'', VString ''10.1.0.0/16'')]]),
      (''ip_filter_string'', VList [VString ''10.3.0.0/16''])]
     = Inr [[(''ip_filter_string'', VSet [VString ''10.3.0.0/16'']),
             (''ip_filter_object'', VList [VMap [(''network'', VString ''10.1.0.0/16'')]])]]"
  "Flatten pf ''pg'' ipSchema ipData
     [(''ip_filter'', VList [VMap [(''network'', VString ''10.1.0.0/16'')],
                             VMap [(''network'', VString ''10.2.0.0/16'')]])]
     = Inr [[(''ip_filter_object'', VList [VMap [(''network'', VString ''10.2.0.0/16'')],
                                           VMap [(''network'', VString ''10.1.0.0/16'')]])]]"
  by (simp_all add: flatten_eval_defs ipSchema_def ipFields_def ipObjectFields_def stringSchema_def
        ipData_def)


text \<open>
  Claim C5, as stated, is refuted. With the DTO \<^verbatim>\<open>{"ip_filter": ["a","b"]}\<close> and a
  prior state that stores \<^verbatim>\<open>ip_filter_object\<close>, \<^verbatim>\<open>Flatten\<close> populates
  \<^verbatim>\<open>ip_filter\<close>, not \<^verbatim>\<open>ip_filter_object\<close>: the alias follows the shape of the
  DTO's first element. And a DTO that carries the key \<^verbatim>\<open>ip_filter_string\<close>
  itself besides \<^verbatim>\<open>ip_filter\<close> gives a result with two of the three fields.
\<close>

theorem Flatten_alias_exclusive_counterexample:
  "Flatten (\<lambda>n. None) ''pg'' ipSchema ipData [(''ip_filter'', VList [VString ''a'', VString ''b''])]
     = Inr [[(''ip_filter'', VSet [VString ''a'', VString ''b''])]]
   \<and> GetOk ipData ''pg_user_config.0.ip_filter_object''
       = Some (VList [VMap [(''network'', VString ''10.2.0.0/16''), (''description'', VString ''office'')],
                      VMap [(''network'', VString ''10.1.0.0/16''), (''description'', VString ''home'')]])
   \<and> Flatten (\<lambda>n. None) ''pg'' ipSchema ipData
        [(''ip_filter'', VList [VMap [(''network'', VString ''10.1.0.0/16'')]]),
         (''ip_filter_string'', VList [VString ''10.3.0.0/16''])]
     = Inr [[(''ip_filter_string'', VSet [VString ''10.3.0.0/16'']),
             (''ip_filter_object'', VList [VMap [(''network'', VString ''10.1.0.0/16'')]])]]"
  by (simp add: ip_eval) (simp add: ipData_def)

lemma assignAlias_string_value:
  assumes "map_of dto k = Some (VList (v # vs))" "GetOk d (p @ ''_string'') = Some x"
  shows "\<exists>vv. map_of (assignAlias d p dto k sortBy) (k @ ''_string'') = Some vv \<and> vv \<noteq> VNil"
  using assms
  by (auto simp: assignAlias_def Let_def update_conv' delete_conv' index_def sortByKey_def
        split: option.splits val.splits)

lemma Flatten_alias_populated:
  assumes "Flatten pf kind s d dto = Inr r"
    and "Elem s = ElemResource flds" "distinct (map fst flds)" "k \<in> fst ` set flds"
    and "{k, k1, k2} \<subseteq> {''ip_filter'', ''ip_filter_string'', ''ip_filter_object''}"
    and "map_of (renameIpFilter d (kind @ userConfigSuffix @ ''.0.'') dto) k = Some vv" "vv \<noteq> VNil"
    and "map_of (renameIpFilter d (kind @ userConfigSuffix @ ''.0.'') dto) k1 = None"
    and "map_of (renameIpFilter d (kind @ userConfigSuffix @ ''.0.'') dto) k2 = None"
  shows "\<exists>tfo. r = [tfo] \<and> map_of tfo k \<noteq> None \<and> map_of tfo k1 = None \<and> map_of tfo k2 = None"
proof -
  let ?p = "kind @ userConfigSuffix @ ''.0.''"
  from assms(1,2) obtain dto' tfo where prep: "prepareDto kind d dto = Inr dto'"
    and ff: "flattenFields pf flds dto' [] = Inr tfo" and r: "r = (if tfo = [] then [] else [tfo])"
    by (auto elim: Flatten_cases)
  have same: "map_of dto' x = map_of (renameIpFilter d ?p dto) x" if "x \<in> {k, k1, k2}" for x
    using that assms(5) by (intro prepareDto_other[OF prep]) (auto simp: createOnlyFields_def)
  have none: "map_of tfo x = None" if "map_of dto' x = None" for x
    using flattenFields_keys[OF ff, of x] that by (cases "map_of tfo x") auto
  from assms(4) obtain sch where sch: "map_of flds k = Some sch"
    by (auto simp: image_iff dest!: weak_map_of_SomeI)
  from same[of k] assms(6) have "map_of dto' k = Some vv" by simp
  from flattenFields_field[OF assms(3) sch this assms(7) ff]
  have p1: "map_of tfo k \<noteq> None" by auto
  from same[of k1] assms(8) have p2: "map_of tfo k1 = None" by (intro none) simp
  from same[of k2] assms(9) have p3: "map_of tfo k2 = None" by (intro none) simp
  from p1 have "tfo \<noteq> []" by auto
  with r p1 p2 p3 show ?thesis by simp
qed

text \<open>
  Claim C5, amended. Take a DTO that does not itself carry the keys
  \<^verbatim>\<open>ip_filter_string\<close> and \<^verbatim>\<open>ip_filter_object\<close>, as the API sends it. Every
  result of \<^verbatim>\<open>Flatten\<close> holds at most one of \<^verbatim>\<open>ip_filter\<close>,
  \<^verbatim>\<open>ip_filter_string\<close> and \<^verbatim>\<open>ip_filter_object\<close>. Which one follows the DTO's
  shape and the prior state: when the DTO's \<^verbatim>\<open>ip_filter\<close> is an array whose
  first element is an object and the state stores no \<^verbatim>\<open>ip_filter_string\<close>, it
  is \<^verbatim>\<open>ip_filter_object\<close>; when the first element is a string and the state
  stores no \<^verbatim>\<open>ip_filter_string\<close>, the array stays under \<^verbatim>\<open>ip_filter\<close>; when
  the state stores \<^verbatim>\<open>ip_filter_string\<close>, it is \<^verbatim>\<open>ip_filter_string\<close>. In each
  case the field is one the schema declares.
\<close>

theorem Flatten_alias_exclusive:
  assumes "map_of dto ''ip_filter_string'' = None" "map_of dto ''ip_filter_object'' = None"
    and "Flatten pf kind s d dto = Inr r"
    and "Elem s = ElemResource flds" "distinct (map fst flds)"
  shows "(\<forall>tfo \<in> set r.
            length (filter (\<lambda>k. map_of tfo k \<noteq> None)
                      [''ip_filter'', ''ip_filter_string'', ''ip_filter_object'']) \<le> 1)
       \<and> (map_of dto ''ip_filter'' = Some (VList (VMap m # vs))
            \<and> GetOk d (kind @ userConfigSuffix @ ''.0.ip_filter_string'') = None
            \<and> ''ip_filter_object'' \<in> fst ` set flds
          \<longrightarrow> (\<exists>tfo. r = [tfo] \<and> map_of tfo ''ip_filter_object'' \<noteq> None
                   \<and> map_of tfo ''ip_filter_string'' = None \<and> map_of tfo ''ip_filter'' = None))
       \<and> (map_of dto ''ip_filter'' = Some (VList (VString x # vs))
            \<and> GetOk d (kind @ userConfigSuffix @ ''.0.ip_filter_string'') = None
            \<and> ''ip_filter'' \<in> fst ` set flds
          \<longrightarrow> (\<exists>tfo. r = [tfo] \<and> map_of tfo ''ip_filter'' \<noteq> None
                   \<and> map_of tfo ''ip_filter_string'' = None \<and> map_of tfo ''ip_filter_object'' = None))
       \<and> (map_of dto ''ip_filter'' = Some (VList (v # vs))
            \<and> GetOk d (kind @ userConfigSuffix @ ''.0.ip_filter_string'') = Some st
            \<and> ''ip_filter_string'' \<in> fst ` set flds
          \<longrightarrow> (\<exists>tfo. r = [tfo] \<and> map_of tfo ''ip_filter_string'' \<noteq> None
                   \<and> map_of tfo ''ip_filter'' = None \<and> map_of tfo ''ip_filter_object'' = None))"
proof (intro conjI impI)
  let ?p = "kind @ userConfigSuffix @ ''.0.''"
  let ?keys = "[''ip_filter'', ''ip_filter_string'', ''ip_filter_object'']"
  from assms(3,4) obtain dto' tfo where prep: "prepareDto kind d dto = Inr dto'"
    and ff: "flattenFields pf flds dto' [] = Inr tfo" and r: "r = (if tfo = [] then [] else [tfo])"
    by (auto elim: Flatten_cases)
  have same: "map_of dto' k = map_of (renameIpFilter d ?p dto) k" if "k \<in> set ?keys" for k
    using that by (intro prepareDto_other[OF prep]) (auto simp: createOnlyFields_def)
  have sub: "map_of dto' k \<noteq> None" if "map_of tfo k \<noteq> None" for k
    using flattenFields_keys[OF ff that] by simp
  have "length (filter (\<lambda>k. map_of tfo k \<noteq> None) ?keys)
          \<le> length (filter (\<lambda>k. map_of (renameIpFilter d ?p dto) k \<noteq> None) ?keys)"
    using sub same by (intro length_filter_mono) metis
  also have "\<dots> \<le> 1" using assms(1,2) by (rule renameIpFilter_exclusive)
  finally have one: "length (filter (\<lambda>k. map_of tfo k \<noteq> None) ?keys) \<le> 1" .
  with r show "\<forall>t \<in> set r. length (filter (\<lambda>k. map_of t k \<noteq> None) ?keys) \<le> 1"
    by (cases "tfo = []") (simp_all del: filter.simps)
next
  let ?p = "kind @ userConfigSuffix @ ''.0.''"
  assume h: "map_of dto ''ip_filter'' = Some (VList (VMap m # vs))
            \<and> GetOk d (kind @ userConfigSuffix @ ''.0.ip_filter_string'') = None
            \<and> ''ip_filter_object'' \<in> fst ` set flds"
  then have l: "map_of dto ''ip_filter'' = Some (VList (VMap m # vs))"
    and nostr: "GetOk d ((?p @ ''ip_filter'') @ ''_string'') = None" by simp_all
  from l have ren: "renameIpFilter d ?p dto
                  = assignAlias d (?p @ ''ip_filter'') dto ''ip_filter'' ''network''"
    by (simp add: renameIpFilter_def)
  from assignAlias_object[OF l nostr, of "''network''"] assms(1)
  obtain vv where a: "map_of (renameIpFilter d ?p dto) ''ip_filter_object'' = Some vv"
    and vv: "vv = (case GetOk d ((?p @ ''ip_filter'') @ ''_object'') of
                     Some inStateObjs \<Rightarrow> sortByKey ''network'' inStateObjs (VList (VMap m # vs))
                   | None \<Rightarrow> VList (VMap m # vs))"
    and b: "map_of (renameIpFilter d ?p dto) ''ip_filter_string'' = None"
    and c: "map_of (renameIpFilter d ?p dto) ''ip_filter'' = None"
    by (simp add: ren)
  have "vv \<noteq> VNil" unfolding vv
    by (auto simp: sortByKey_def split: option.splits val.splits)
  from h Flatten_alias_populated[OF assms(3,4,5) _ _ a this b c]
  show "\<exists>tfo. r = [tfo] \<and> map_of tfo ''ip_filter_object'' \<noteq> None
                   \<and> map_of tfo ''ip_filter_string'' = None \<and> map_of tfo ''ip_filter'' = None"
    by simp
next
  let ?p = "kind @ userConfigSuffix @ ''.0.''"
  assume h: "map_of dto ''ip_filter'' = Some (VList (VString x # vs))
            \<and> GetOk d (kind @ userConfigSuffix @ ''.0.ip_filter_string'') = None
            \<and> ''ip_filter'' \<in> fst ` set flds"
  then have l: "map_of dto ''ip_filter'' = Some (VList (VString x # vs))"
    and nostr: "GetOk d ((?p @ ''ip_filter'') @ ''_string'') = None" by simp_all
  from assignAlias_strings[OF l _ nostr, of "''network''"] l
  have ren: "renameIpFilter d ?p dto = dto"
    by (simp add: renameIpFilter_def)
  from h Flatten_alias_populated[OF assms(3,4,5), of "''ip_filter''" "''ip_filter_string''"
      "''ip_filter_object''" "VList (VString x # vs)"] l assms(1,2)
  show "\<exists>tfo. r = [tfo] \<and> map_of tfo ''ip_filter'' \<noteq> None
                   \<and> map_of tfo ''ip_filter_string'' = None \<and> map_of tfo ''ip_filter_object'' = None"
    by (simp add: ren)
next
  let ?p = "kind @ userConfigSuffix @ ''.0.''"
  assume h: "map_of dto ''ip_filter'' = Some (VList (v # vs))
            \<and> GetOk d (kind @ userConfigSuffix @ ''.0.ip_filter_string'') = Some st
            \<and> ''ip_filter_string'' \<in> fst ` set flds"
  then have l: "map_of dto ''ip_filter'' = Some (VList (v # vs))"
    and str: "GetOk d ((?p @ ''ip_filter'') @ ''_string'') = Some st" by simp_all
  from l have ren: "renameIpFilter d ?p dto
                  = assignAlias d (?p @ ''ip_filter'') dto ''ip_filter'' ''network''"
    by (simp add: renameIpFilter_def)
  from assignAlias_string_value[OF l str, of "''network''"]
  obtain vv where a: "map_of (renameIpFilter d ?p dto) ''ip_filter_string'' = Some vv"
    and nn: "vv \<noteq> VNil" by (auto simp: ren)
  from assignAlias_string_state[OF l str, of "''network''"] assms(2)
  have b: "map_of (renameIpFilter d ?p dto) ''ip_filter'' = None"
    and c: "map_of (renameIpFilter d ?p dto) ''ip_filter_object'' = None"
    by (simp_all add: ren)
  from h Flatten_alias_populated[OF assms(3,4,5) _ _ a nn b c]
  show "\<exists>tfo. r = [tfo] \<and> map_of tfo ''ip_filter_string'' \<noteq> None
                   \<and> map_of tfo ''ip_filter'' = None \<and> map_of tfo ''ip_filter_object'' = None"
    by simp
qed

lemma ip_string_eval:
  "Flatten pf ''pg'' ipSchema ipStringData [(''ip_filter'', VList [VString ''a'', VString ''b''])]
     = Inr [[(''ip_filter_string'', VSet [VString ''a'', VString ''b''])]]"
  by (simp add: flatten_eval_defs ipSchema_def ipFields_def ipObjectFields_def stringSchema_def
        ipStringData_def)

theorem Flatten_alias_exclusive_witness:
  "map_of [(''ip_filter'', VList [VMap [(''network'', VString ''10.1.0.0/16'')],
                                  VMap [(''network'', VString ''10.2.0.0/16'')]])] ''ip_filter_string'' = None
   \<and> map_of [(''ip_filter'', VList [VMap [(''network'', VString ''10.1.0.0/16'')],
                                  VMap [(''network'', VString ''10.2.0.0/16'')]])] ''ip_filter_object'' = None
   \<and> map_of [(''ip_filter'', VList [VString ''a'', VString ''b''])] ''ip_filter_string'' = None
   \<and> map_of [(''ip_filter'', VList [VString ''a'', VString ''b''])] ''ip_filter_object'' = None
   \<and> GetOk ipData (''pg'' @ userConfigSuffix @ ''.0.ip_filter_string'') = None
   \<and> GetOk ipStringData (''pg'' @ userConfigSuffix @ ''.0.ip_filter_string'')
       = Some (VSet [VString ''10.3.0.0/16''])
   \<and> Elem ipSchema = ElemResource ipFields \<and> distinct (map fst ipFields)
   \<and> ''ip_filter_object'' \<in> fst ` set ipFields
   \<and> ''ip_filter'' \<in> fst ` set ipFields
   \<and> ''ip_filter_string'' \<in> fst ` set ipFields
   \<and> Flatten (\<lambda>n. None) ''pg'' ipSchema ipData
        [(''ip_filter'', VList [VMap [(''network'', VString ''10.1.0.0/16'')],
                                VMap [(''network'', VString ''10.2.0.0/16'')]])]
       = Inr [[(''ip_filter_object'', VList [VMap [(''network'', VString ''10.2.0.0/16'')],
                                             VMap [(''network'', VString ''10.1.0.0/16'')]])]]
   \<and> Flatten (\<lambda>n. None) ''pg'' ipSchema ipData [(''ip_filter'', VList [VString ''a'', VString ''b''])]
       = Inr [[(''ip_filter'', VSet [VString ''a'', VString ''b''])]]
   \<and> Flatten (\<lambda>n. None) ''pg'' ipSchema ipStringData
        [(''ip_filter'', VList [VString ''a'', VString ''b''])]
       = Inr [[(''ip_filter_string'', VSet [VString ''a'', VString ''b''])]]
   \<and> length (filter (\<lambda>k. map_of [(''ip_filter_object'',
                                     VList [VMap [(''network'', VString ''10.2.0.0/16'')],
                                            VMap [(''network'', VString ''10.1.0.0/16'')]])] k \<noteq> None)
               [''ip_filter'', ''ip_filter_string'', ''ip_filter_object'']) \<le> 1"
  using Flatten_alias_exclusive
          [of "[(''ip_filter'', VList [VMap [(''network'', VString ''10.1.0.0/16'')],
                                       VMap [(''network'', VString ''10.2.0.0/16'')]])]"
              "\<lambda>n. None" "''pg''" ipSchema ipData
              "[[(''ip_filter_object'', VList [VMap [(''network'', VString ''10.2.0.0/16'')],
                                               VMap [(''network'', VString ''10.1.0.0/16'')]])]]"
              ipFields "[(''network'', VString ''10.1.0.0/16'')]"
              "[VMap [(''network'', VString ''10.2.0.0/16'')]]"]
        Flatten_alias_exclusive
          [of "[(''ip_filter'', VList [VString ''a'', VString ''b''])]"
              "\<lambda>n. None" "''pg''" ipSchema ipData
              "[[(''ip_filter'', VSet [VString ''a'', VString ''b''])]]"
              ipFields _ "[VString ''b'']" "''a''"]
        Flatten_alias_exclusive
          [of "[(''ip_filter'', VList [VString ''a'', VString ''b''])]"
              "\<lambda>n. None" "''pg''" ipSchema ipStringData
              "[[(''ip_filter_string'', VSet [VString ''a'', VString ''b''])]]"
              ipFields _ "[VString ''b'']" _ "VString ''a''" "VSet [VString ''10.3.0.0/16'']"]
  by (simp add: ip_eval ip_string_eval)
     (simp add: ipData_def ipStringData_def ipSchema_def ipFields_def userConfigSuffix_def)



section \<open>The order of an aliased object list\<close>

lemma sortByKey_two:
  assumes "keyOf sortBy sb = keyOf sortBy b" "keyOf sortBy sa = keyOf sortBy a"
    and "keyOf sortBy a \<noteq> keyOf sortBy b"
  shows "sortByKey sortBy (VList [sb, sa]) (VList [a, b]) = VList [b, a]"
  using assms by (simp add: sortByKey_def)

text \<open>
  Claim C7. The alias group \<^verbatim>\<open>ip_filter\<close> has the ordering key \<^verbatim>\<open>network\<close>.
  When the prior state stores \<^verbatim>\<open>ip_filter_object\<close> as the objects \<open>[B, A]\<close> and
  the DTO brings the objects with the same keys as \<open>[A, B]\<close>, every result of
  \<^verbatim>\<open>Flatten\<close> holds under \<^verbatim>\<open>ip_filter_object\<close> the flattened \<open>B\<close> before the
  flattened \<open>A\<close>: the order of the state, not of the DTO.
\<close>

theorem Flatten_restores_state_order:
  assumes "map_of dto ''ip_filter'' = Some (VList [VMap a, VMap b])"
    and "GetOk d (kind @ userConfigSuffix @ ''.0.ip_filter_string'') = None"
    and "GetOk d (kind @ userConfigSuffix @ ''.0.ip_filter_object'') = Some (VList [sb, sa])"
    and "keyOf ''network'' sb = keyOf ''network'' (VMap b)"
    and "keyOf ''network'' sa = keyOf ''network'' (VMap a)"
    and "keyOf ''network'' (VMap a) \<noteq> keyOf ''network'' (VMap b)"
    and "Elem s = ElemResource flds" "distinct (map fst flds)"
    and "map_of flds ''ip_filter_object'' = Some sub"
    and "Type sub = TypeList" "Elem sub = ElemResource res"
    and "flattenObj pf res a = Inr ta" "ta \<noteq> []"
    and "flattenObj pf res b = Inr tb" "tb \<noteq> []"
    and "Flatten pf kind s d dto = Inr r"
  shows "\<exists>tfo. r = [tfo] \<and> map_of tfo ''ip_filter_object'' = Some (VList [VMap tb, VMap ta])"
proof -
  let ?p = "kind @ userConfigSuffix @ ''.0.''"
  from assms(16,7) obtain dto' tfo where prep: "prepareDto kind d dto = Inr dto'"
    and ff: "flattenFields pf flds dto' [] = Inr tfo" and r: "r = (if tfo = [] then [] else [tfo])"
    by (auto elim: Flatten_cases)
  from assms(1) have ren: "renameIpFilter d ?p dto
                  = assignAlias d (?p @ ''ip_filter'') dto ''ip_filter'' ''network''"
    by (simp add: renameIpFilter_def)
  from assms(2) have nostr: "GetOk d ((?p @ ''ip_filter'') @ ''_string'') = None" by simp
  from assignAlias_object_value[OF assms(1) nostr, of "''network''"]
  have "map_of (renameIpFilter d ?p dto) ''ip_filter_object''
          = Some (sortByKey ''network'' (VList [sb, sa]) (VList [VMap a, VMap b]))"
    by (simp add: ren assms(3))
  also have "sortByKey ''network'' (VList [sb, sa]) (VList [VMap a, VMap b]) = VList [VMap b, VMap a]"
    using assms(4,5,6) by (rule sortByKey_two)
  finally have "map_of dto' ''ip_filter_object'' = Some (VList [VMap b, VMap a])"
    using prepareDto_other[OF prep, of "''ip_filter_object''"] by (simp add: createOnlyFields_def)
  from flattenFields_field[OF assms(8,9) this _ ff]
  obtain x where x: "flattenAttr pf sub (VList [VMap b, VMap a]) = Inr x"
    and m: "map_of tfo ''ip_filter_object'' = Some x" by auto
  obtain ty fn mx el where sub: "sub = Schema ty fn mx el" by (cases sub)
  from x assms(10-15) have "x = VList [VMap tb, VMap ta]"
    by (simp add: sub objectList_def assertList_def assertMap_def)
  with m have "map_of tfo ''ip_filter_object'' = Some (VList [VMap tb, VMap ta])" by simp
  moreover from this have "tfo \<noteq> []" by auto
  ultimately show ?thesis using r by simp
qed

theorem Flatten_restores_state_order_witness:
  "Flatten (\<lambda>n. None) ''pg'' ipSchema ipData
        [(''ip_filter'', VList [VMap [(''network'', VString ''10.1.0.0/16'')],
                                VMap [(''network'', VString ''10.2.0.0/16'')]])]
       = Inr [[(''ip_filter_object'', VList [VMap [(''network'', VString ''10.2.0.0/16'')],
                                             VMap [(''network'', VString ''10.1.0.0/16'')]])]]
   \<and> GetOk ipData (''pg'' @ userConfigSuffix @ ''.0.ip_filter_string'') = None
   \<and> GetOk ipData (''pg'' @ userConfigSuffix @ ''.0.ip_filter_object'')
       = Some (VList [VMap [(''network'', VString ''10.2.0.0/16''), (''description'', VString ''office'')],
                      VMap [(''network'', VString ''10.1.0.0/16''), (''description'', VString ''home'')]])
   \<and> keyOf ''network'' (VMap [(''network'', VString ''10.1.0.0/16'')])
       \<noteq> keyOf ''network'' (VMap [(''network'', VString ''10.2.0.0/16'')])
   \<and> flattenObj (\<lambda>n. None) ipObjectFields [(''network'', VString ''10.1.0.0/16'')]
       = Inr [(''network'', VString ''10.1.0.0/16'')]
   \<and> flattenObj (\<lambda>n. None) ipObjectFields [(''network'', VString ''10.2.0.0/16'')]
       = Inr [(''network'', VString ''10.2.0.0/16'')]"
  using Flatten_restores_state_order
          [of "[(''ip_filter'', VList [VMap [(''network'', VString ''10.1.0.0/16'')],
                                       VMap [(''network'', VString ''10.2.0.0/16'')]])]"
              "[(''network'', VString ''10.1.0.0/16'')]" "[(''network'', VString ''10.2.0.0/16'')]"
              ipData "''pg''"
              "VMap [(''network'', VString ''10.2.0.0/16''), (''description'', VString ''office'')]"
              "VMap [(''network'', VString ''10.1.0.0/16''), (''description'', VString ''home'')]"
              ipSchema ipFields "Schema TypeList False 0 (ElemResource ipObjectFields)" ipObjectFields
              "\<lambda>n. None" "[(''network'', VString ''10.1.0.0/16'')]"
              "[(''network'', VString ''10.2.0.0/16'')]"
              "[[(''ip_filter_object'', VList [VMap [(''network'', VString ''10.2.0.0/16'')],
                                               VMap [(''network'', VString ''10.1.0.0/16'')]])]]"]
  by (simp add: ip_eval)
     (simp add: ipData_def ipSchema_def ipFields_def ipObjectFields_def stringSchema_def
        userConfigSuffix_def keyOf_def index_def castString_def)


section \<open>Expanding and flattening a scalar\<close>
















section \<open>The order of any aliased list\<close>

text \<open>
  What \<^verbatim>\<open>assignAlias\<close> does for \<^verbatim>\<open>ip_filter\<close> it does for every key and
  ordering key it is called with, \<^verbatim>\<open>namespaces\<close> and \<^verbatim>\<open>name\<close> included.
\<close>

lemma assignAlias_restores_order:
  assumes "map_of dto k = Some (VList [VMap a, VMap b])"
    and "GetOk d (p @ ''_string'') = None"
    and "GetOk d (p @ ''_object'') = Some (VList [sb, sa])"
    and "keyOf sortBy sb = keyOf sortBy (VMap b)" "keyOf sortBy sa = keyOf sortBy (VMap a)"
    and "keyOf sortBy (VMap a) \<noteq> keyOf sortBy (VMap b)"
  shows "map_of (assignAlias d p dto k sortBy) (k @ ''_object'') = Some (VList [VMap b, VMap a])"
  using assignAlias_object_value[OF assms(1,2), of sortBy] sortByKey_two[OF assms(4,5,6)]
  by (simp add: assms(3))

end
